theory Spec2Isabelle
  imports Main "HOL-Library.Sublist" "HOL-Library.Char_ord" "HOL-Library.AList"
begin

section \<open>Kafka Desktop Viewer: the ingestion pipeline\<close>

text \<open>
  The development follows the two TypeScript programs of the repository: the Electron main
  process (\<^verbatim>\<open>maskText\<close>, \<^verbatim>\<open>stopConsumer\<close>, the \<^verbatim>\<open>kafka:start\<close> and \<^verbatim>\<open>kafka:stop\<close> handlers
  and the \<^verbatim>\<open>eachMessage\<close> callback) and the React renderer (\<^verbatim>\<open>App\<close>: the drain interval,
  the \<^verbatim>\<open>filtered\<close> memo, \<^verbatim>\<open>start\<close>, \<^verbatim>\<open>stop\<close> and the Clear button).

  A JavaScript string is a sequence of code units. The strings with code units below 256
  are modelled, as a \<^typ>\<open>string\<close> whose characters are the code units. Every character class
  the programs use (digits, letters, word characters, the two classes of the email pattern)
  contains ASCII characters only, also under the regular expression flag \<^verbatim>\<open>i\<close>, so any
  other character is in none of them.
\<close>

subsection \<open>Characters\<close>

type_synonym cls = "char \<Rightarrow> bool"

text \<open>\<^verbatim>\<open>\d\<close>\<close>

definition is_digit :: cls where
  "is_digit c = (CHR ''0'' \<le> c \<and> c \<le> CHR ''9'')"

text \<open>\<^verbatim>\<open>[A-Z]\<close> under the flag \<^verbatim>\<open>i\<close>\<close>

definition is_letter :: cls where
  "is_letter c = ((CHR ''A'' \<le> c \<and> c \<le> CHR ''Z'') \<or> (CHR ''a'' \<le> c \<and> c \<le> CHR ''z''))"

text \<open>\<^verbatim>\<open>\w\<close>, the class that decides \<^verbatim>\<open>\b\<close>\<close>

definition is_word :: cls where
  "is_word c = (is_letter c \<or> is_digit c \<or> c = CHR ''_'')"

text \<open>\<^verbatim>\<open>[A-Z0-9._%+-]\<close> under the flag \<^verbatim>\<open>i\<close>\<close>

definition email_local :: cls where
  "email_local c = (is_letter c \<or> is_digit c \<or> c \<in> set ''._%+-'')"

text \<open>\<^verbatim>\<open>[A-Z0-9.-]\<close> under the flag \<^verbatim>\<open>i\<close>\<close>

definition email_domain :: cls where
  "email_domain c = (is_letter c \<or> is_digit c \<or> c \<in> set ''.-'')"

text \<open>
  The white space and line terminators that \<^verbatim>\<open>String.prototype.trim\<close> removes, among the
  code units below 256: tab, line feed, vertical tab, form feed, carriage return, space and
  the no-break space U+00A0.
\<close>

definition is_space :: cls where
  "is_space c =
     (c \<in> set [CHR 0x09, CHR 0x0A, CHR 0x0B, CHR 0x0C, CHR 0x0D, CHR '' '', CHR 0xA0])"

definition trim :: "string \<Rightarrow> string" where
  "trim s = rev (dropWhile is_space (rev (dropWhile is_space s)))"

text \<open>
  \<^verbatim>\<open>String.prototype.toLowerCase\<close> on code units below 256: the letters \<^verbatim>\<open>A\<close> to \<^verbatim>\<open>Z\<close> and
  U+00C0 to U+00DE, the multiplication sign U+00D7 excepted, move up by 0x20, which sets the
  bit of value 0x20; every other code unit stays.
\<close>

definition lower_char :: "char \<Rightarrow> char" where
  "lower_char c =
     (if (CHR ''A'' \<le> c \<and> c \<le> CHR ''Z'') \<or> (CHR 0xC0 \<le> c \<and> c \<le> CHR 0xD6) \<or>
         (CHR 0xD8 \<le> c \<and> c \<le> CHR 0xDE)
      then (case c of Char b0 b1 b2 b3 b4 b5 b6 b7 \<Rightarrow> Char b0 b1 b2 b3 b4 True b6 b7)
      else c)"

definition toLowerCase :: "string \<Rightarrow> string" where
  "toLowerCase s = map lower_char s"

text \<open>\<^verbatim>\<open>hay.includes(q)\<close>: \<open>q\<close> occurs in \<open>hay\<close> at some position.\<close>

fun includes_str :: "string \<Rightarrow> string \<Rightarrow> bool" where
  "includes_str [] q = (q = [])"
| "includes_str (c # hay) q = (prefix q (c # hay) \<or> includes_str hay q)"

subsection \<open>The two regular expressions of \<^verbatim>\<open>maskText\<close>\<close>

text \<open>
  Both patterns are sequences of three kinds of atom: a literal character, a character
  class repeated greedily at least \<open>lo\<close> times (\<^verbatim>\<open>+\<close> is \<^verbatim>\<open>{1,}\<close>), and the word
  boundary \<^verbatim>\<open>\b\<close>.
\<close>

datatype atom = Lit char | AtLeast nat cls | WordBoundary

definition word_before :: "char option \<Rightarrow> bool" where
  "word_before prev = (case prev of None \<Rightarrow> False | Some c \<Rightarrow> is_word c)"

definition word_after :: "string \<Rightarrow> bool" where
  "word_after s = (case s of [] \<Rightarrow> False | c # _ \<Rightarrow> is_word c)"

text \<open>\<^verbatim>\<open>\b\<close>: exactly one of the characters before and after the position is a word character.\<close>

definition at_boundary :: "char option \<Rightarrow> string \<Rightarrow> bool" where
  "at_boundary prev s = (word_before prev \<noteq> word_after s)"

text \<open>The character before the position reached after \<open>n\<close> more characters of \<open>s\<close>.\<close>

definition prev_after :: "char option \<Rightarrow> string \<Rightarrow> nat \<Rightarrow> char option" where
  "prev_after prev s n = (if n = 0 then prev else Some (s ! (n - 1)))"

text \<open>
  Backtracking of a greedy quantifier: the continuation is tried after \<open>n\<close> repetitions,
  then after \<open>n - 1\<close>, down to \<open>lo\<close>; the first success is the match.
\<close>

fun try_down :: "(nat \<Rightarrow> nat option) \<Rightarrow> nat \<Rightarrow> nat \<Rightarrow> nat option" where
  "try_down k lo n =
     (if n < lo then None
      else case k n of
        Some r \<Rightarrow> Some r
      | None \<Rightarrow> (case n of 0 \<Rightarrow> None | Suc m \<Rightarrow> try_down k lo m))"

text \<open>
  \<open>rmatch re prev s\<close> matches the pattern at the start of \<open>s\<close>, where \<open>prev\<close> is the
  character before it, and returns the number of characters the match consumes.
\<close>

fun rmatch :: "atom list \<Rightarrow> char option \<Rightarrow> string \<Rightarrow> nat option" where
  "rmatch [] prev s = Some 0"
| "rmatch (Lit c # rest) prev s =
     (case s of
        [] \<Rightarrow> None
      | x # xs \<Rightarrow> if x = c then map_option Suc (rmatch rest (Some x) xs) else None)"
| "rmatch (WordBoundary # rest) prev s =
     (if at_boundary prev s then rmatch rest prev s else None)"
| "rmatch (AtLeast lo p # rest) prev s =
     try_down (\<lambda>n. map_option (\<lambda>r. n + r) (rmatch rest (prev_after prev s n) (drop n s)))
       lo (length (takeWhile p s))"

text \<open>
  \<^verbatim>\<open>input.replace(re, tok)\<close> for a pattern with the flag \<^verbatim>\<open>g\<close>: the pattern is tried at
  each position from left to right; a match is replaced by the token and the scan goes on
  behind it (one character further after an empty match). Neither token contains \<^verbatim>\<open>$\<close>.
\<close>

fun replace_all :: "atom list \<Rightarrow> string \<Rightarrow> char option \<Rightarrow> string \<Rightarrow> string" where
  "replace_all re tok prev [] =
     (case rmatch re prev [] of None \<Rightarrow> [] | Some _ \<Rightarrow> tok)"
| "replace_all re tok prev (x # xs) =
     (case rmatch re prev (x # xs) of
        None \<Rightarrow> x # replace_all re tok (Some x) xs
      | Some 0 \<Rightarrow> tok @ x # replace_all re tok (Some x) xs
      | Some (Suc k) \<Rightarrow> tok @ replace_all re tok (Some ((x # xs) ! k)) (drop k xs))"

text \<open>\<^verbatim>\<open>/[A-Z0-9._%+-]+@[A-Z0-9.-]+\.[A-Z]{2,}/gi\<close>\<close>

definition email :: "atom list" where
  "email = [AtLeast 1 email_local, Lit (CHR ''@''), AtLeast 1 email_domain,
            Lit (CHR ''.''), AtLeast 2 is_letter]"

text \<open>\<^verbatim>\<open>/\b\d{7,}\b/g\<close>\<close>

definition longDigits :: "atom list" where
  "longDigits = [WordBoundary, AtLeast 7 is_digit, WordBoundary]"

definition maskText :: "string \<Rightarrow> string" where
  "maskText input =
     replace_all longDigits ''[REDACTED_NUM]'' None
       (replace_all email ''[REDACTED_EMAIL]'' None input)"

subsection \<open>The masking policy in the specification's words\<close>

text \<open>
  A run of seven or more decimal digits that stands between word boundaries: no word
  character before it, the whole run of digits, no word character behind it.
\<close>

definition digit_run_at :: "char option \<Rightarrow> string \<Rightarrow> nat option" where
  "digit_run_at prev s =
     (let n = length (takeWhile is_digit s)
      in if 7 \<le> n \<and> \<not> word_before prev \<and> \<not> word_after (drop n s) then Some n else None)"

text \<open>A dot and a top-level domain of two or more letters.\<close>

definition tld_at :: "string \<Rightarrow> nat option" where
  "tld_at s =
     (case s of
        [] \<Rightarrow> None
      | c # r \<Rightarrow>
          if c = CHR ''.'' \<and> 2 \<le> length (takeWhile is_letter r)
          then Some (Suc (length (takeWhile is_letter r))) else None)"

text \<open>
  An email address at the start of \<open>s\<close>: the local part (all characters of its class), the
  sign \<^verbatim>\<open>@\<close>, then the longest domain part that a dot and a top-level domain follow.
\<close>

definition email_at :: "string \<Rightarrow> nat option" where
  "email_at s =
     (let l = length (takeWhile email_local s)
      in if l = 0 then None
         else case drop l s of
           [] \<Rightarrow> None
         | c # r \<Rightarrow>
             if c \<noteq> CHR ''@'' then None
             else (case find (\<lambda>k. tld_at (drop k r) \<noteq> None)
                          (rev [1..<Suc (length (takeWhile email_domain r))]) of
                     None \<Rightarrow> None
                   | Some k \<Rightarrow> map_option (\<lambda>t. l + 1 + k + t) (tld_at (drop k r))))"

fun redact_emails :: "string \<Rightarrow> string" where
  "redact_emails [] = []"
| "redact_emails (x # xs) =
     (case email_at (x # xs) of
        None \<Rightarrow> x # redact_emails xs
      | Some n \<Rightarrow> ''[REDACTED_EMAIL]'' @ redact_emails (drop (n - 1) xs))"

fun redact_digit_runs :: "char option \<Rightarrow> string \<Rightarrow> string" where
  "redact_digit_runs prev [] = []"
| "redact_digit_runs prev (x # xs) =
     (case digit_run_at prev (x # xs) of
        None \<Rightarrow> x # redact_digit_runs (Some x) xs
      | Some n \<Rightarrow>
          ''[REDACTED_NUM]'' @ redact_digit_runs (Some ((x # xs) ! (n - 1))) (drop (n - 1) xs))"

text \<open>Emails first, then digit runs over the text whose emails are already redacted.\<close>

definition mask_reference :: "string \<Rightarrow> string" where
  "mask_reference s = redact_digit_runs None (redact_emails s)"

text \<open>Some position of the text starts seven or more digits.\<close>

fun has_long_run :: "string \<Rightarrow> bool" where
  "has_long_run [] = False"
| "has_long_run (x # xs) = (7 \<le> length (takeWhile is_digit (x # xs)) \<or> has_long_run xs)"

subsection \<open>Records of the broker client and of the viewer\<close>

text \<open>
  A Node \<^verbatim>\<open>Buffer\<close> is represented by the text that \<^verbatim>\<open>toString("utf8")\<close> returns for it;
  the decoding itself is Node's.
\<close>

datatype buffer = Buffer (utf8: string)

text \<open>
  The timestamp of a message as the callback finds it: missing, a number, or a string. The
  broker client hands the timestamp over as a decimal string, as it does the offset (which
  the callback copies into a string field unconverted): hence the conversion with
  \<^verbatim>\<open>Number\<close> in the callback.
\<close>

datatype raw_timestamp = TsAbsent | TsNumber int | TsString string

text \<open>
  A JavaScript number, as far as timestamps need it: an integer that a double holds
  exactly, \<^verbatim>\<open>NaN\<close>, or the value \<^verbatim>\<open>Number(s)\<close> of a string \<open>s\<close> that is not such an
  integer in plain decimal notation, which is kept symbolic.
\<close>

datatype js_number = Num int | NaN | NumberOf string

text \<open>
  The message of the broker client. Key, value and each header value are a \<^verbatim>\<open>Buffer\<close>
  or missing; the headers as a whole may be missing too.
\<close>

record KafkaMessage =
  raw_key :: "buffer option"
  raw_value :: "buffer option"
  raw_timestamp :: raw_timestamp
  raw_offset :: string
  raw_headers :: "(string \<times> buffer option) list option"

record KafkaMsg =
  msg_topic :: string
  msg_partition :: nat
  msg_offset :: string
  msg_timestamp :: "js_number option"
  msg_key :: string
  msg_value :: string
  msg_headers :: "(string \<times> string) list"

record StartConfig =
  cfg_brokers :: string
  cfg_topic :: string
  cfg_groupId :: string
  cfg_fromBeginning :: bool
  cfg_mask :: bool

subsection \<open>The body of \<^verbatim>\<open>eachMessage\<close>: normalisation\<close>

text \<open>\<^verbatim>\<open>b ? b.toString("utf8") : ""\<close>; a \<^verbatim>\<open>Buffer\<close> is an object and so never falsy.\<close>

definition text_of :: "buffer option \<Rightarrow> string" where
  "text_of b = (case b of None \<Rightarrow> [] | Some buf \<Rightarrow> utf8 buf)"

text \<open>
  An object with string keys is the list of its own entries in the order of
  \<^verbatim>\<open>Object.entries\<close>, each key once. \<^verbatim>\<open>Object.fromEntries\<close> defines each entry as an own
  property, which is \<^const>\<open>AList.update\<close>.
\<close>

definition fromEntries :: "(string \<times> 'v) list \<Rightarrow> (string \<times> 'v) list" where
  "fromEntries es = fold (\<lambda>(k, v) obj. AList.update k v obj) es []"

text \<open>
  The assignment \<^verbatim>\<open>obj[k] = v\<close> of a string \<open>v\<close> to an object made by the literal \<^verbatim>\<open>{}\<close>.
  For the key \<^verbatim>\<open>__proto__\<close> it runs the setter that the object inherits, which ignores a
  value that is neither an object nor null: no property is made. Every other key becomes an
  own property or has its value replaced.
\<close>

definition assign :: "string \<Rightarrow> string \<Rightarrow> (string \<times> string) list \<Rightarrow> (string \<times> string) list" where
  "assign k v obj = (if k = ''__proto__'' then obj else AList.update k v obj)"

text \<open>The loop that fills \<^verbatim>\<open>headers\<close>; nothing is entered when the message has no headers.\<close>

definition build_headers :: "(string \<times> buffer option) list option \<Rightarrow> (string \<times> string) list" where
  "build_headers hs =
     (case hs of
        None \<Rightarrow> []
      | Some es \<Rightarrow> fold (\<lambda>(k, v) headers. assign k (text_of v) headers) es [])"

text \<open>The value of a string of decimal digits.\<close>

definition digits_value :: "string \<Rightarrow> int" where
  "digits_value ds = foldl (\<lambda>acc c. 10 * acc + (of_char c - 48)) 0 ds"

text \<open>A plain decimal integer: digits, with an optional sign before them.\<close>

definition decimal_int :: "string \<Rightarrow> int option" where
  "decimal_int s =
     (case s of
        [] \<Rightarrow> None
      | c # ds \<Rightarrow>
          if c = CHR ''-'' \<and> ds \<noteq> [] \<and> list_all is_digit ds then Some (- digits_value ds)
          else if c = CHR ''+'' \<and> ds \<noteq> [] \<and> list_all is_digit ds then Some (digits_value ds)
          else if list_all is_digit (c # ds) then Some (digits_value (c # ds))
          else None)"

text \<open>
  \<^verbatim>\<open>Number(ts)\<close>. A decimal integer up to \<open>2\<^sup>5\<^sup>3\<close> in absolute value is read exactly; the
  value for any other string is not computed here.
\<close>

definition js_Number :: "raw_timestamp \<Rightarrow> js_number" where
  "js_Number ts =
     (case ts of
        TsAbsent \<Rightarrow> NaN
      | TsNumber n \<Rightarrow> Num n
      | TsString s \<Rightarrow>
          (case decimal_int s of
             Some n \<Rightarrow> if \<bar>n\<bar> \<le> 2 ^ 53 then Num n else NumberOf s
           | None \<Rightarrow> NumberOf s))"

text \<open>Truthiness: \<^verbatim>\<open>undefined\<close>, the number zero and the empty string are falsy.\<close>

definition truthy :: "raw_timestamp \<Rightarrow> bool" where
  "truthy ts =
     (case ts of TsAbsent \<Rightarrow> False | TsNumber n \<Rightarrow> n \<noteq> 0 | TsString s \<Rightarrow> s \<noteq> [])"

text \<open>
  The record \<^verbatim>\<open>out\<close> that the callback builds from the message, with \<open>mask_on\<close> the flag
  \<^verbatim>\<open>cfg.mask\<close> of the closure.
\<close>

definition normalize :: "bool \<Rightarrow> string \<Rightarrow> nat \<Rightarrow> KafkaMessage \<Rightarrow> KafkaMsg" where
  "normalize mask_on topic part message =
     (let key = text_of (raw_key message);
          value = text_of (raw_value message);
          headers = build_headers (raw_headers message)
      in \<lparr> msg_topic = topic,
           msg_partition = part,
           msg_offset = raw_offset message,
           msg_timestamp =
             (if truthy (raw_timestamp message) then Some (js_Number (raw_timestamp message))
              else None),
           msg_key = (if mask_on then maskText key else key),
           msg_value = (if mask_on then maskText value else value),
           msg_headers =
             (if mask_on then fromEntries (map (\<lambda>(k, v). (k, maskText v)) headers)
              else headers) \<rparr>)"

subsection \<open>The main process\<close>

text \<open>
  A consumer handle is named by the number of consumers created before it. Every call on
  the broker client either resolves or rejects; the model records each call with its handle
  and outcome when it settles, in the order in which the calls settle.
\<close>

datatype outcome = Resolves | Rejects

datatype broker_call = Connect | Subscribe | Run | Stop | Disconnect

type_synonym call_log = "(nat \<times> broker_call \<times> outcome) list"

text \<open>
  An invocation of an \<^verbatim>\<open>eachMessage\<close> callback by the broker client: the closure it
  invokes, named by its position among the closures that \<^verbatim>\<open>kafka:start\<close> has handed to
  \<^verbatim>\<open>consumer.run\<close>, and the arguments.
\<close>

record delivery =
  d_closure :: nat
  d_topic :: string
  d_partition :: nat
  d_message :: KafkaMessage

text \<open>
  The module variables \<^verbatim>\<open>consumer\<close>, \<^verbatim>\<open>running\<close> and \<^verbatim>\<open>win\<close> (whether it is set), the
  number of consumers created, the \<^verbatim>\<open>eachMessage\<close> closures handed to the broker client,
  each with the \<^verbatim>\<open>cfg\<close> of the handler invocation that made it, the calls settled on the
  broker client and the records sent to the renderer with
  \<^verbatim>\<open>win.webContents.send("kafka:message", out)\<close>.
\<close>

record main_state =
  consumer :: "nat option"
  running :: bool
  win :: bool
  created :: nat
  closures :: "StartConfig list"
  calls :: call_log
  sent :: "KafkaMsg list"

definition init_main :: main_state where
  "init_main = \<lparr> consumer = None, running = False, win = False, created = 0,
                  closures = [], calls = [], sent = [] \<rparr>"

definition createWindow :: "main_state \<Rightarrow> main_state" where
  "createWindow st = st\<lparr> win := True \<rparr>"

text \<open>
  The callback. The broker client can only invoke a closure it was given; the body then
  starts with \<^verbatim>\<open>if (!running || !win) return\<close>.
\<close>

definition eachMessage :: "delivery \<Rightarrow> main_state \<Rightarrow> main_state" where
  "eachMessage d st =
     (if length (closures st) \<le> d_closure d then st
      else if \<not> running st \<or> \<not> win st then st
      else st\<lparr> sent := sent st @
             [normalize (cfg_mask (closures st ! d_closure d))
                (d_topic d) (d_partition d) (d_message d)] \<rparr>)"

text \<open>The callbacks that run while a handler waits for a call on the broker client.\<close>

definition land :: "delivery list \<Rightarrow> main_state \<Rightarrow> main_state" where
  "land ds st = fold eachMessage ds st"

definition call :: "nat \<Rightarrow> broker_call \<Rightarrow> outcome \<Rightarrow> main_state \<Rightarrow> main_state" where
  "call c op res st = st\<lparr> calls := calls st @ [(c, op, res)] \<rparr>"

text \<open>\<^verbatim>\<open>consumer.run({ eachMessage })\<close> hands the closure of this invocation to the client.\<close>

definition register :: "StartConfig \<Rightarrow> main_state \<Rightarrow> main_state" where
  "register cfg st = st\<lparr> closures := closures st @ [cfg] \<rparr>"

text \<open>
  What \<^verbatim>\<open>stopConsumer\<close> meets: the outcomes of \<^verbatim>\<open>consumer.stop()\<close> and
  \<^verbatim>\<open>consumer.disconnect()\<close>, and the callbacks that run while it awaits each.
\<close>

record stop_env =
  stop_outcome :: outcome
  disconnect_outcome :: outcome
  during_stop :: "delivery list"
  during_disconnect :: "delivery list"

text \<open>
  \<^verbatim>\<open>stopConsumer\<close>, run while no other handler runs. When \<^verbatim>\<open>consumer.stop()\<close> rejects,
  control passes to the \<^verbatim>\<open>catch\<close> block and \<^verbatim>\<open>consumer.disconnect()\<close> is not called.
\<close>

definition stopConsumer :: "stop_env \<Rightarrow> main_state \<Rightarrow> main_state" where
  "stopConsumer env st =
     (let st1 = st\<lparr> running := False \<rparr>
      in case consumer st1 of
           None \<Rightarrow> st1
         | Some c \<Rightarrow>
             let st2 = land (during_stop env) (call c Stop (stop_outcome env) st1);
                 st3 = (if stop_outcome env = Resolves
                        then land (during_disconnect env)
                               (call c Disconnect (disconnect_outcome env) st2)
                        else st2)
             in st3\<lparr> consumer := None \<rparr>)"

text \<open>What the \<^verbatim>\<open>kafka:start\<close> handler meets, in the order of its awaits.\<close>

record start_env =
  stopping :: stop_env
  connect_outcome :: outcome
  during_connect :: "delivery list"
  subscribe_outcome :: outcome
  during_subscribe :: "delivery list"
  run_outcome :: outcome
  during_run :: "delivery list"

text \<open>
  The errors an invocation can reject with: that of the call that rejected, or the
  \<^verbatim>\<open>TypeError\<close> of calling a method on \<^verbatim>\<open>consumer\<close> when it is null.
\<close>

datatype start_error = ConnectFailed | SubscribeFailed | RunFailed | TypeError

datatype ack = Ok

text \<open>
  The \<^verbatim>\<open>kafka:start\<close> handler, run while no other handler runs. It has no \<^verbatim>\<open>try\<close>: a call
  that rejects ends the handler there, and the invocation rejects with that error.
\<close>

definition kafka_start ::
  "StartConfig \<Rightarrow> start_env \<Rightarrow> main_state \<Rightarrow> (start_error + ack) \<times> main_state" where
  "kafka_start cfg env st =
     (let st1 = stopConsumer (stopping env) st;
          c = created st1;
          st2 = st1\<lparr> consumer := Some c, created := Suc c \<rparr>;
          st3 = land (during_connect env) (call c Connect (connect_outcome env) st2)
      in if connect_outcome env = Rejects then (Inl ConnectFailed, st3)
         else
           let st4 = land (during_subscribe env) (call c Subscribe (subscribe_outcome env) st3)
           in if subscribe_outcome env = Rejects then (Inl SubscribeFailed, st4)
              else
                let st5 = register cfg (st4\<lparr> running := True \<rparr>);
                    st6 = land (during_run env) (call c Run (run_outcome env) st5)
                in if run_outcome env = Rejects then (Inl RunFailed, st6)
                   else (Inr Ok, st6))"

text \<open>The \<^verbatim>\<open>kafka:stop\<close> handler, run while no other handler runs.\<close>

definition kafka_stop :: "stop_env \<Rightarrow> main_state \<Rightarrow> (start_error + ack) \<times> main_state" where
  "kafka_stop env st = (Inr Ok, stopConsumer env st)"

subsection \<open>The handlers step by step\<close>

text \<open>
  A handler is an \<^verbatim>\<open>async\<close> function: it runs until it awaits a call on the broker client
  and goes on when that call settles; in between, callbacks and the steps of other
  invocations run. An invocation is a handler with what it meets, and the place where it
  waits: the call it awaits and the handle the call was made on, or the result it has
  ended with. \<^verbatim>\<open>stopConsumer\<close> and the handlers read \<^verbatim>\<open>consumer\<close> anew for every call.
\<close>

datatype handler = StartHandler StartConfig start_env | StopHandler stop_env

datatype pc =
    AwaitStop nat
  | AwaitDisconnect nat
  | AwaitConnect nat
  | AwaitSubscribe nat
  | AwaitRun nat
  | Finished "start_error + ack"

definition stop_env_of :: "handler \<Rightarrow> stop_env" where
  "stop_env_of h = (case h of StartHandler cfg env \<Rightarrow> stopping env | StopHandler env \<Rightarrow> env)"

text \<open>
  When \<^verbatim>\<open>stopConsumer\<close> has returned: \<^verbatim>\<open>kafka:stop\<close> returns \<^verbatim>\<open>{ ok: true }\<close>;
  \<^verbatim>\<open>kafka:start\<close> creates its consumer, stores it in \<^verbatim>\<open>consumer\<close> and calls \<^verbatim>\<open>connect\<close>.
\<close>

definition after_stop :: "handler \<Rightarrow> main_state \<Rightarrow> pc \<times> main_state" where
  "after_stop h st =
     (case h of
        StopHandler env \<Rightarrow> (Finished (Inr Ok), st)
      | StartHandler cfg env \<Rightarrow>
          (AwaitConnect (created st),
           st\<lparr> consumer := Some (created st), created := Suc (created st) \<rparr>))"

text \<open>The invocation of a handler, up to its first call on the broker client.\<close>

definition invoke :: "handler \<Rightarrow> main_state \<Rightarrow> pc \<times> main_state" where
  "invoke h st =
     (let st1 = st\<lparr> running := False \<rparr>
      in case consumer st1 of
           None \<Rightarrow> after_stop h st1
         | Some c \<Rightarrow> (AwaitStop c, st1))"

text \<open>
  The awaited call settles and the handler goes on to its next call. In \<^verbatim>\<open>stopConsumer\<close>
  a rejection, also that of calling \<^verbatim>\<open>disconnect\<close> on null, is caught and
  \<^verbatim>\<open>consumer = null\<close> follows; in \<^verbatim>\<open>kafka:start\<close> it ends the invocation.
\<close>

fun resume :: "handler \<Rightarrow> pc \<Rightarrow> main_state \<Rightarrow> pc \<times> main_state" where
  "resume h (AwaitStop c) st =
     (let st1 = call c Stop (stop_outcome (stop_env_of h)) st
      in if stop_outcome (stop_env_of h) = Rejects then after_stop h (st1\<lparr> consumer := None \<rparr>)
         else case consumer st1 of
                None \<Rightarrow> after_stop h (st1\<lparr> consumer := None \<rparr>)
              | Some c' \<Rightarrow> (AwaitDisconnect c', st1))"
| "resume h (AwaitDisconnect c) st =
     after_stop h ((call c Disconnect (disconnect_outcome (stop_env_of h)) st)\<lparr> consumer := None \<rparr>)"
| "resume (StartHandler cfg env) (AwaitConnect c) st =
     (let st1 = call c Connect (connect_outcome env) st
      in if connect_outcome env = Rejects then (Finished (Inl ConnectFailed), st1)
         else case consumer st1 of
                None \<Rightarrow> (Finished (Inl TypeError), st1)
              | Some c' \<Rightarrow> (AwaitSubscribe c', st1))"
| "resume (StartHandler cfg env) (AwaitSubscribe c) st =
     (let st1 = call c Subscribe (subscribe_outcome env) st
      in if subscribe_outcome env = Rejects then (Finished (Inl SubscribeFailed), st1)
         else
           let st2 = st1\<lparr> running := True \<rparr>
           in case consumer st2 of
                None \<Rightarrow> (Finished (Inl TypeError), st2)
              | Some c' \<Rightarrow> (AwaitRun c', register cfg st2))"
| "resume (StartHandler cfg env) (AwaitRun c) st =
     (let st1 = call c Run (run_outcome env) st
      in if run_outcome env = Rejects then (Finished (Inl RunFailed), st1)
         else (Finished (Inr Ok), st1))"
| "resume h p st = (p, st)"




text \<open>
  The main process with its pending invocations. An event is the creation of the window, a
  callback, a handler that runs from invocation to end with no other handler in between
  (\<open>KafkaStart\<close>, \<open>KafkaStop\<close>), the invocation of a handler up to its first await, or the
  next step of the invocation with the given number.
\<close>

record system =
  proc :: main_state
  tasks :: "(handler \<times> pc) list"

definition init_system :: system where
  "init_system = \<lparr> proc = init_main, tasks = [] \<rparr>"

datatype main_event =
    WindowCreated
  | Callback delivery
  | KafkaStart StartConfig start_env
  | KafkaStop stop_env
  | Invoke handler
  | Resume nat

fun main_step :: "main_event \<Rightarrow> system \<Rightarrow> system" where
  "main_step WindowCreated sys = sys\<lparr> proc := createWindow (proc sys) \<rparr>"
| "main_step (Callback d) sys = sys\<lparr> proc := eachMessage d (proc sys) \<rparr>"
| "main_step (KafkaStart cfg env) sys = sys\<lparr> proc := snd (kafka_start cfg env (proc sys)) \<rparr>"
| "main_step (KafkaStop env) sys = sys\<lparr> proc := snd (kafka_stop env (proc sys)) \<rparr>"
| "main_step (Invoke h) sys =
     sys\<lparr> proc := snd (invoke h (proc sys)),
          tasks := tasks sys @ [(h, fst (invoke h (proc sys)))] \<rparr>"
| "main_step (Resume i) sys =
     (if length (tasks sys) \<le> i then sys
      else
        let h = fst (tasks sys ! i);
            p = snd (tasks sys ! i)
        in sys\<lparr> proc := snd (resume h p (proc sys)),
                tasks := (tasks sys)[i := (h, fst (resume h p (proc sys)))] \<rparr>)"

definition run_main :: "main_event list \<Rightarrow> system \<Rightarrow> system" where
  "run_main evs sys = fold main_step evs sys"











text \<open>An event that is not the invocation of \<^verbatim>\<open>kafka:start\<close>.\<close>

fun no_start :: "main_event \<Rightarrow> bool" where
  "no_start (KafkaStart cfg env) = False"
| "no_start (Invoke (StartHandler cfg env)) = False"
| "no_start _ = True"

text \<open>An invocation of \<^verbatim>\<open>kafka:start\<close> that has not ended.\<close>

fun pending_start :: "handler \<times> pc \<Rightarrow> bool" where
  "pending_start (StartHandler cfg env, Finished r) = False"
| "pending_start (StartHandler cfg env, p) = True"
| "pending_start (StopHandler env, p) = False"

definition start_pending :: "system \<Rightarrow> bool" where
  "start_pending sys = list_ex pending_start (tasks sys)"

subsection \<open>The renderer\<close>

datatype status = Stopped | Running | Starting | Error

record app_state =
  ui_brokers :: string
  ui_topic :: string
  ui_groupId :: string
  ui_fromBeginning :: bool
  ui_mask :: bool
  status :: status
  search :: string
  selected :: "KafkaMsg option"
  messages :: "KafkaMsg list"
  queue :: "KafkaMsg list"

definition MAX_MESSAGES :: nat where
  "MAX_MESSAGES = 500"

text \<open>The initial values of the \<^verbatim>\<open>useState\<close> and \<^verbatim>\<open>useRef\<close> hooks.\<close>

definition init_app :: app_state where
  "init_app = \<lparr> ui_brokers = ''localhost:29092'', ui_topic = [],
                 ui_groupId = ''kafka-desktop-viewer'', ui_fromBeginning = False,
                 ui_mask = True, status = Stopped, search = [], selected = None,
                 messages = [], queue = [] \<rparr>"

text \<open>The listener registered with \<^verbatim>\<open>window.kafkaAPI.onMessage\<close>.\<close>

definition onMessage :: "KafkaMsg \<Rightarrow> app_state \<Rightarrow> app_state" where
  "onMessage msg st = st\<lparr> queue := queue st @ [msg] \<rparr>"

text \<open>\<^verbatim>\<open>xs.slice(start)\<close> for \<open>0 \<le> start\<close>.\<close>

definition slice_from :: "nat \<Rightarrow> 'a list \<Rightarrow> 'a list" where
  "slice_from start xs = drop start xs"

text \<open>The callback of the interval timer, with the state update it requests applied.\<close>

definition drain :: "app_state \<Rightarrow> app_state" where
  "drain st =
     (if length (queue st) = 0 then st
      else
        let merged = messages st @ queue st
        in st\<lparr> queue := [],
                messages := (if length merged \<le> MAX_MESSAGES then merged
                             else slice_from (length merged - MAX_MESSAGES) merged) \<rparr>)"

text \<open>The memo \<^verbatim>\<open>filtered\<close>.\<close>

definition filtered :: "app_state \<Rightarrow> KafkaMsg list" where
  "filtered st =
     (let q = toLowerCase (trim (search st))
      in if q = [] then messages st
         else filter (\<lambda>m. includes_str (toLowerCase (msg_key m @ '' '' @ msg_value m)) q)
                (messages st))"

text \<open>Records arriving from the main process and ticks of the interval timer.\<close>

datatype feed = Arrive KafkaMsg | Tick

fun feed_step :: "feed \<Rightarrow> app_state \<Rightarrow> app_state" where
  "feed_step (Arrive m) st = onMessage m st"
| "feed_step Tick st = drain st"

definition run_feed :: "feed list \<Rightarrow> app_state \<Rightarrow> app_state" where
  "run_feed evs st = fold feed_step evs st"

text \<open>
  The history without a bound: the records drained so far and the records still queued,
  both in arrival order.
\<close>

fun ledger :: "feed list \<Rightarrow> KafkaMsg list \<times> KafkaMsg list \<Rightarrow> KafkaMsg list \<times> KafkaMsg list" where
  "ledger [] (done, pending) = (done, pending)"
| "ledger (Arrive m # evs) (done, pending) = ledger evs (done, pending @ [m])"
| "ledger (Tick # evs) (done, pending) = ledger evs (done @ pending, [])"

text \<open>The most recent \<open>n\<close> elements of a list, in the order of the list.\<close>

definition most_recent :: "nat \<Rightarrow> 'a list \<Rightarrow> 'a list" where
  "most_recent n xs = drop (length xs - n) xs"

text \<open>Each record delivered and drained on its own.\<close>

definition one_at_a_time :: "KafkaMsg list \<Rightarrow> feed list" where
  "one_at_a_time rs = concat (map (\<lambda>m. [Arrive m, Tick]) rs)"

text \<open>
  \<^verbatim>\<open>start\<close> of the renderer. \<open>start_request\<close> is the part before the invocation of
  \<^verbatim>\<open>window.kafkaAPI.start\<close>; \<open>pending\<close> are the arrivals and ticks while the renderer
  awaits it; \<open>res\<close> is how the invocation ends, and \<open>start_settled\<close> the part behind it.
\<close>

definition blank :: "string \<Rightarrow> bool" where
  "blank s = (trim s = [])"

definition start_request :: "app_state \<Rightarrow> app_state" where
  "start_request st = st\<lparr> selected := None, messages := [], queue := [], status := Starting \<rparr>"

definition start_config :: "app_state \<Rightarrow> StartConfig" where
  "start_config st = \<lparr> cfg_brokers = ui_brokers st, cfg_topic = ui_topic st,
                         cfg_groupId = ui_groupId st, cfg_fromBeginning = ui_fromBeginning st,
                         cfg_mask = ui_mask st \<rparr>"

definition start_settled :: "start_error + ack \<Rightarrow> app_state \<Rightarrow> app_state" where
  "start_settled res st =
     (case res of Inr _ \<Rightarrow> st\<lparr> status := Running \<rparr> | Inl _ \<Rightarrow> st\<lparr> status := Error \<rparr>)"

definition start :: "start_error + ack \<Rightarrow> feed list \<Rightarrow> app_state \<Rightarrow> app_state" where
  "start res pending st =
     (if blank (ui_brokers st) \<or> blank (ui_topic st) \<or> blank (ui_groupId st) then st
      else start_settled res (run_feed pending (start_request st)))"

text \<open>\<^verbatim>\<open>stop\<close> of the renderer and the Clear button.\<close>

definition stop :: "app_state \<Rightarrow> app_state" where
  "stop st = st\<lparr> status := Stopped \<rparr>"

definition clear :: "app_state \<Rightarrow> app_state" where
  "clear st = st\<lparr> messages := [], queue := [], selected := None \<rparr>"

subsection \<open>Sample values\<close>

definition sample_record :: "string \<Rightarrow> string \<Rightarrow> KafkaMsg" where
  "sample_record k v =
     \<lparr> msg_topic = ''orders'', msg_partition = 0, msg_offset = ''0'', msg_timestamp = None,
       msg_key = k, msg_value = v, msg_headers = [] \<rparr>"

definition sample_cfg :: StartConfig where
  "sample_cfg = \<lparr> cfg_brokers = ''localhost:29092'', cfg_topic = ''orders'',
                   cfg_groupId = ''kafka-desktop-viewer'', cfg_fromBeginning = False,
                   cfg_mask = True \<rparr>"

definition sample_message :: "raw_timestamp \<Rightarrow> KafkaMessage" where
  "sample_message ts =
     \<lparr> raw_key = None, raw_value = Some (Buffer ''bob@example.org''), raw_timestamp = ts,
       raw_offset = ''7'',
       raw_headers = Some [(''trace'', Some (Buffer ''12345678'')), (''empty'', None)] \<rparr>"

text \<open>A callback of the closure that was handed to the broker client first.\<close>

definition sample_delivery :: delivery where
  "sample_delivery = \<lparr> d_closure = 0, d_topic = ''orders'', d_partition = 0,
                        d_message = sample_message (TsString ''1700000000000'') \<rparr>"

text \<open>Release calls that resolve, or a \<^verbatim>\<open>consumer.stop()\<close> that rejects; no callback in flight.\<close>

definition quiet_stop :: "outcome \<Rightarrow> stop_env" where
  "quiet_stop res = \<lparr> stop_outcome = res, disconnect_outcome = Resolves,
                       during_stop = [], during_disconnect = [] \<rparr>"

text \<open>A start whose release, connect, subscribe and run calls end as given.\<close>

definition quiet_start :: "outcome \<Rightarrow> outcome \<Rightarrow> outcome \<Rightarrow> outcome \<Rightarrow> start_env" where
  "quiet_start rel con sub rn =
     \<lparr> stopping = quiet_stop rel, connect_outcome = con, during_connect = [],
       subscribe_outcome = sub, during_subscribe = [], run_outcome = rn, during_run = [] \<rparr>"

section \<open>Masking\<close>

lemma try_down_top:
  "(\<And>k. lo \<le> k \<Longrightarrow> k < n \<Longrightarrow> f k = None) \<Longrightarrow> try_down f lo n = (if n < lo then None else f n)"
proof (induction n)
  case 0
  then show ?case by (simp split: option.splits)
next
  case (Suc n)
  have "try_down f lo n = None"
  proof -
    have "try_down f lo n = (if n < lo then None else f n)"
      using Suc.prems by (intro Suc.IH) simp
    then show ?thesis using Suc.prems[of n] by (cases "n < lo") simp_all
  qed
  then show ?case by (simp split: option.splits)
qed

lemma try_down_find:
  "try_down f lo n =
     (case find (\<lambda>k. f k \<noteq> None) (rev [lo..<Suc n]) of None \<Rightarrow> None | Some k \<Rightarrow> f k)"
proof (induction n)
  case 0
  then show ?case by (auto split: option.splits)
next
  case (Suc n)
  show ?case
  proof (cases "Suc n < lo")
    case True
    then show ?thesis by simp
  next
    case False
    then have up: "rev [lo..<Suc (Suc n)] = Suc n # rev [lo..<Suc n]" by simp
    show ?thesis
    proof (cases "f (Suc n)")
      case None
      then show ?thesis using False Suc.IH unfolding up by (simp del: try_down.simps upt_Suc add: try_down.simps[of f lo "Suc n"])
    next
      case (Some r)
      then show ?thesis using False unfolding up by (simp del: upt_Suc)
    qed
  qed
qed

lemma try_down_Some: "try_down Some lo n = (if n < lo then None else Some n)"
  by (cases n) auto

declare try_down.simps [simp del]

lemma takeWhile_nth_holds: "k < length (takeWhile p s) \<Longrightarrow> p (s ! k)"
  by (metis nth_mem set_takeWhileD takeWhile_nth)

lemma drop_takeWhile_head:
  "k < length (takeWhile p s) \<Longrightarrow> \<exists>r. drop k s = (s ! k) # r \<and> p (s ! k)"
proof -
  assume a: "k < length (takeWhile p s)"
  have "length (takeWhile p s) \<le> length s" by (rule length_takeWhile_le)
  with a have "k < length s" by simp
  then have "drop k s = (s ! k) # drop (Suc k) s" by (simp add: Cons_nth_drop_Suc)
  with a show ?thesis by (auto simp: takeWhile_nth_holds)
qed

lemma rmatch_tld: "rmatch [Lit (CHR ''.''), AtLeast 2 is_letter] prev s = tld_at s"
  by (cases s) (auto simp: tld_at_def try_down_Some comp_def option.map_ident)

lemma digit_is_word: "is_digit c \<Longrightarrow> is_word c"
  by (simp add: is_word_def)

lemma rmatch_longDigits: "rmatch longDigits prev s = digit_run_at prev s"
proof -
  define n where "n = length (takeWhile is_digit s)"
  define F where "F = (\<lambda>k. map_option (\<lambda>r. k + r)
     (rmatch [WordBoundary] (prev_after prev s k) (drop k s)))"
  have inner: "F k = None" if "7 \<le> k" "k < n" for k
  proof -
    from that have "k - 1 < n" by simp
    then have "is_word (s ! (k - 1))"
      using takeWhile_nth_holds[of "k - 1" is_digit s] unfolding n_def
      by (simp add: digit_is_word)
    moreover have "k < length (takeWhile is_digit s)"
      using that by (simp add: n_def)
    from drop_takeWhile_head[OF this]
    obtain r where "drop k s = (s ! k) # r" "is_digit (s ! k)" by blast
    ultimately show ?thesis using that
      by (simp add: F_def prev_after_def at_boundary_def word_before_def word_after_def digit_is_word)
  qed
  have td: "try_down F 7 n = (if n < 7 then None else F n)"
    by (rule try_down_top) (rule inner)
  have top: "F n = (if \<not> word_after (drop n s) then Some n else None)" if "7 \<le> n"
  proof -
    from that have "n - 1 < n" by simp
    then have "is_word (s ! (n - 1))"
      using takeWhile_nth_holds[of "n - 1" is_digit s] unfolding n_def
      by (simp add: digit_is_word)
    then show ?thesis using that
      by (simp add: F_def prev_after_def at_boundary_def word_before_def)
  qed
  have start: "word_after s" if "7 \<le> n"
  proof -
    have "0 < length (takeWhile is_digit s)"
      using that unfolding n_def by linarith
    then show ?thesis
      by (cases s) (auto simp: word_after_def digit_is_word split: if_splits)
  qed
  have "rmatch longDigits prev s = (if at_boundary prev s then try_down F 7 n else None)"
    by (simp add: longDigits_def F_def n_def)
  also have "\<dots> = digit_run_at prev s"
    using td top start by (auto simp: digit_run_at_def n_def[symmetric] at_boundary_def Let_def)
  finally show ?thesis .
qed

lemma at_sign_not_local: "email_local c \<Longrightarrow> c \<noteq> CHR ''@''"
  by (auto simp: email_local_def is_letter_def is_digit_def)

lemma rmatch_domain_tld:
  "rmatch [AtLeast 1 email_domain, Lit (CHR ''.''), AtLeast 2 is_letter] prev r =
     (case find (\<lambda>k. tld_at (drop k r) \<noteq> None)
             (rev [1..<Suc (length (takeWhile email_domain r))]) of
        None \<Rightarrow> None
      | Some k \<Rightarrow> map_option (\<lambda>t. k + t) (tld_at (drop k r)))"
proof -
  have "rmatch [AtLeast 1 email_domain, Lit (CHR ''.''), AtLeast 2 is_letter] prev r =
      try_down (\<lambda>n. map_option (\<lambda>t. n + t) (tld_at (drop n r))) 1
        (length (takeWhile email_domain r))"
    by (simp only: rmatch.simps(4) rmatch_tld)
  then show ?thesis
    by (simp add: try_down_find del: upt_Suc)
qed

lemma rmatch_email: "rmatch email prev s = email_at s"
proof -
  define l where "l = length (takeWhile email_local s)"
  define tail where "tail = [AtLeast 1 email_domain, Lit (CHR ''.''), AtLeast 2 is_letter]"
  define F where "F = (\<lambda>k. map_option (\<lambda>r. k + r)
    (rmatch (Lit (CHR ''@'') # tail) (prev_after prev s k) (drop k s)))"
  have dt: "rmatch tail p r =
     (case find (\<lambda>k. tld_at (drop k r) \<noteq> None)
             (rev [1..<Suc (length (takeWhile email_domain r))]) of
        None \<Rightarrow> None
      | Some k \<Rightarrow> map_option (\<lambda>t. k + t) (tld_at (drop k r)))" for p r
    unfolding tail_def by (rule rmatch_domain_tld)
  have inner: "F k = None" if "1 \<le> k" "k < l" for k
  proof -
    have "k < length (takeWhile email_local s)" using that by (simp add: l_def)
    from drop_takeWhile_head[OF this]
    obtain r where "drop k s = (s ! k) # r" "email_local (s ! k)" by blast
    then show ?thesis by (simp add: F_def at_sign_not_local)
  qed
  have "rmatch email prev s = try_down F 1 l"
    unfolding email_def F_def l_def tail_def by (simp only: rmatch.simps(4))
  also have "\<dots> = (if l < 1 then None else F l)"
    by (rule try_down_top) (rule inner)
  also have "\<dots> = email_at s"
  proof (cases "l = 0")
    case True
    then show ?thesis by (simp add: email_at_def l_def[symmetric])
  next
    case False
    show ?thesis
    proof (cases "drop l s")
      case Nil
      then show ?thesis using False
        by (simp add: email_at_def l_def[symmetric] F_def)
    next
      case (Cons c r)
      have fn: "(\<lambda>x. Suc (l + (k + x))) = (+) (Suc (l + k))" for k
        by (simp add: fun_eq_iff)
      from Cons show ?thesis using False
        by (simp add: email_at_def l_def[symmetric] F_def dt fn
            option.map_comp comp_def del: upt_Suc split: option.splits)
    qed
  qed
  finally show ?thesis .
qed

lemma email_at_pos: "email_at s = Some n \<Longrightarrow> 0 < n"
  by (auto simp: email_at_def Let_def split: if_splits list.splits option.splits)

lemma digit_run_at_pos: "digit_run_at prev s = Some n \<Longrightarrow> 0 < n"
  by (auto simp: digit_run_at_def Let_def split: if_splits)

lemma replace_all_email:
  "replace_all email ''[REDACTED_EMAIL]'' prev s = redact_emails s"
proof (induction s arbitrary: prev rule: redact_emails.induct)
  case 1
  show ?case by (simp add: rmatch_email email_at_def del: rmatch.simps)
next
  case (2 x xs)
  show ?case
  proof (cases "email_at (x # xs)")
    case None
    then show ?thesis using "2.IH"(1) by (simp add: rmatch_email del: rmatch.simps)
  next
    case (Some n)
    then obtain k where n: "n = Suc k" using email_at_pos[OF Some] by (cases n) auto
    show ?thesis using Some "2.IH"(2)[OF Some] unfolding n
      by (simp add: rmatch_email del: rmatch.simps)
  qed
qed

lemma replace_all_longDigits:
  "replace_all longDigits ''[REDACTED_NUM]'' prev s = redact_digit_runs prev s"
proof (induction prev s rule: redact_digit_runs.induct)
  case (1 prev)
  show ?case by (simp add: rmatch_longDigits digit_run_at_def del: rmatch.simps)
next
  case (2 prev x xs)
  show ?case
  proof (cases "digit_run_at prev (x # xs)")
    case None
    then show ?thesis using "2.IH"(1) by (simp add: rmatch_longDigits del: rmatch.simps)
  next
    case (Some n)
    then obtain k where n: "n = Suc k" using digit_run_at_pos[OF Some] by (cases n) auto
    show ?thesis using Some "2.IH"(2)[OF Some] unfolding n
      by (simp add: rmatch_longDigits del: rmatch.simps)
  qed
qed

lemma email_at_has_at: "email_at s = Some n \<Longrightarrow> CHR ''@'' \<in> set s"
proof -
  assume a: "email_at s = Some n"
  then obtain r where "drop (length (takeWhile email_local s)) s = CHR ''@'' # r"
    by (auto simp: email_at_def Let_def split: if_splits list.splits)
  then have "CHR ''@'' \<in> set (drop (length (takeWhile email_local s)) s)" by simp
  then show ?thesis by (rule in_set_dropD)
qed

lemma redact_emails_no_at: "CHR ''@'' \<notin> set s \<Longrightarrow> redact_emails s = s"
proof (induction s)
  case Nil
  show ?case by simp
next
  case (Cons x xs)
  have "email_at (x # xs) = None"
  proof (cases "email_at (x # xs)")
    case None
    then show ?thesis .
  next
    case (Some n)
    from email_at_has_at[OF Some] Cons.prems show ?thesis by simp
  qed
  with Cons show ?case by simp
qed

lemma redact_digit_runs_short: "\<not> has_long_run s \<Longrightarrow> redact_digit_runs prev s = s"
proof (induction s arbitrary: prev)
  case Nil
  show ?case by simp
next
  case (Cons x xs)
  from Cons.prems have "digit_run_at prev (x # xs) = None"
    by (simp add: digit_run_at_def Let_def)
  with Cons show ?case by simp
qed

text \<open>
  C3. \<^verbatim>\<open>maskText\<close>, the two global replacements with backtracking matching, equals the
  reference transform: first every email address, scanned from the left, becomes the email
  token, then every run of seven or more digits between word boundaries in the text so
  redacted becomes the number token. A text without the sign \<^verbatim>\<open>@\<close> in which no position
  starts seven digits is left as it is; so is \<^verbatim>\<open>short 123456\<close>.
\<close>

theorem maskText_is_reference:
  "maskText text = mask_reference text \<and>
   (CHR ''@'' \<notin> set text \<and> \<not> has_long_run text \<longrightarrow> maskText text = text) \<and>
   maskText ''short 123456'' = ''short 123456''"
proof -
  have ref: "maskText t = mask_reference t" for t
    by (simp add: maskText_def mask_reference_def replace_all_email replace_all_longDigits)
  have same: "maskText t = t" if "CHR ''@'' \<notin> set t" "\<not> has_long_run t" for t
    using that by (simp add: ref mask_reference_def redact_emails_no_at redact_digit_runs_short)
  have "maskText ''short 123456'' = ''short 123456''"
    by (rule same) (simp_all add: is_digit_def)
  with ref same show ?thesis by blast
qed

theorem maskText_is_reference_witness:
  "CHR ''@'' \<notin> set ''order 42 of 7'' \<and> \<not> has_long_run ''order 42 of 7'' \<and>
   maskText ''order 42 of 7'' = ''order 42 of 7'' \<and>
   mask_reference ''alice@example.com id 12345678'' = ''[REDACTED_EMAIL] id [REDACTED_NUM]''"
proof -
  have a: "CHR ''@'' \<notin> set ''order 42 of 7''" by simp
  have b: "\<not> has_long_run ''order 42 of 7''" by (simp add: is_digit_def)
  have c: "maskText ''alice@example.com id 12345678'' = ''[REDACTED_EMAIL] id [REDACTED_NUM]''"
    by code_simp
  have d: "maskText ''order 42 of 7'' = ''order 42 of 7''"
    using maskText_is_reference[of "''order 42 of 7''"] a b by blast
  have "maskText ''alice@example.com id 12345678'' =
      mask_reference ''alice@example.com id 12345678''"
    using maskText_is_reference[of "''alice@example.com id 12345678''"] by blast
  with c have e: "mask_reference ''alice@example.com id 12345678'' =
      ''[REDACTED_EMAIL] id [REDACTED_NUM]''" by (simp only:)
  from a b d e show ?thesis by blast
qed

section \<open>Normalisation\<close>

lemma update_fresh: "k \<notin> fst ` set obj \<Longrightarrow> AList.update k v obj = obj @ [(k, v)]"
  by (induction obj) auto

lemma fold_update_distinct:
  "distinct (map fst es) \<Longrightarrow> fst ` set es \<inter> fst ` set obj = {} \<Longrightarrow>
   fold (\<lambda>(k, v) obj. AList.update k (f v) obj) es obj = obj @ map (\<lambda>(k, v). (k, f v)) es"
proof (induction es arbitrary: obj)
  case Nil
  show ?case by simp
next
  case (Cons e es)
  obtain k v where e: "e = (k, v)" by (cases e)
  from Cons.prems e have fresh: "k \<notin> fst ` set obj" by auto
  have "distinct (map fst es)" using Cons.prems by simp
  moreover have "fst ` set es \<inter> fst ` set (obj @ [(k, f v)]) = {}"
    using Cons.prems e by auto
  ultimately have "fold (\<lambda>(k, v) obj. AList.update k (f v) obj) es (obj @ [(k, f v)]) =
      (obj @ [(k, f v)]) @ map (\<lambda>(k, v). (k, f v)) es"
    by (rule Cons.IH)
  then show ?case using e fresh by (simp add: update_fresh)
qed

lemma fold_update_keys:
  "fst ` set (fold (\<lambda>(k, v) obj. AList.update k (f v) obj) es obj) =
     fst ` set es \<union> fst ` set obj"
  by (induction es arbitrary: obj) (auto simp: dom_update split: prod.splits)

text \<open>The loop enters the headers other than \<^verbatim>\<open>__proto__\<close>.\<close>

lemma fold_assign:
  "fold (\<lambda>(k, v) headers. assign k (f v) headers) es obj =
   fold (\<lambda>(k, v) headers. AList.update k (f v) headers)
     (filter (\<lambda>(k, v). k \<noteq> ''__proto__'') es) obj"
  by (induction es arbitrary: obj) (auto simp: assign_def)

lemma build_headers_distinct:
  "distinct (map fst es) \<Longrightarrow>
   build_headers (Some es) =
     map (\<lambda>(k, v). (k, text_of v)) (filter (\<lambda>(k, v). k \<noteq> ''__proto__'') es)"
  using fold_update_distinct[of "filter (\<lambda>(k, v). k \<noteq> ''__proto__'') es" "[]" text_of]
  by (simp add: build_headers_def fold_assign distinct_map_filter)

lemma build_headers_keys:
  "fst ` set (build_headers (Some es)) = fst ` set es - {''__proto__''}"
  using fold_update_keys[of text_of "filter (\<lambda>(k, v). k \<noteq> ''__proto__'') es" "[]"]
  by (auto simp: build_headers_def fold_assign)

lemma fromEntries_distinct:
  "distinct (map fst es) \<Longrightarrow> fromEntries es = es"
  using fold_update_distinct[of es "[]" id] by (simp add: fromEntries_def)

lemma fromEntries_keys: "fst ` set (fromEntries es) = fst ` set es"
  using fold_update_keys[of id es "[]"] by (simp add: fromEntries_def)

lemma map_fst_relabel: "map fst (map (\<lambda>(k, v). (k, g v)) es) = map fst es"
  by (induction es) auto

lemma headers_distinct:
  assumes "distinct (map fst es)" "raw_headers message = Some es"
  shows "msg_headers (normalize mask_on topic part message) =
     map (\<lambda>(k, v). (k, if mask_on then maskText (text_of v) else text_of v))
       (filter (\<lambda>(k, v). k \<noteq> ''__proto__'') es)"
proof (cases mask_on)
  case False
  then show ?thesis using assms by (simp add: normalize_def build_headers_distinct)
next
  case True
  let ?es = "filter (\<lambda>(k, v). k \<noteq> ''__proto__'') es"
  have "distinct (map fst ?es)" using assms(1) by (simp add: distinct_map_filter)
  then have "distinct (map fst (map (\<lambda>(k, v). (k, maskText v))
      (map (\<lambda>(k, v). (k, text_of v)) ?es)))"
    by (simp only: map_fst_relabel)
  then have "fromEntries (map (\<lambda>(k, v). (k, maskText v)) (map (\<lambda>(k, v). (k, text_of v)) ?es)) =
      map (\<lambda>(k, v). (k, maskText v)) (map (\<lambda>(k, v). (k, text_of v)) ?es)"
    by (rule fromEntries_distinct)
  then show ?thesis using True assms
    by (simp add: normalize_def build_headers_distinct comp_def case_prod_unfold)
qed

lemma headers_keys:
  "raw_headers message = Some es \<Longrightarrow>
   fst ` set (msg_headers (normalize mask_on topic part message)) =
     fst ` set es - {''__proto__''}"
  by (cases mask_on)
     (simp_all add: normalize_def fromEntries_keys build_headers_keys image_image
       case_prod_unfold)

text \<open>
  What normalisation does with the texts. An absent key, value or header value becomes the
  empty string and a present one its UTF-8 text; without masking these texts are the key,
  the value and the header values of the record, with masking \<^verbatim>\<open>maskText\<close> is applied to
  each of them separately. The rebuilt headers are those of the message other than
  \<^verbatim>\<open>__proto__\<close>, key by key and in their order. A message without headers yields none.
\<close>

lemma normalize_texts:
  "text_of None = [] \<and> text_of (Some b) = utf8 b \<and>
   msg_key (normalize mask_on topic part message) =
     (if mask_on then maskText (text_of (raw_key message)) else text_of (raw_key message)) \<and>
   msg_value (normalize mask_on topic part message) =
     (if mask_on then maskText (text_of (raw_value message)) else text_of (raw_value message)) \<and>
   (raw_headers message = None \<longrightarrow> msg_headers (normalize mask_on topic part message) = []) \<and>
   (raw_headers message = Some es \<longrightarrow>
      fst ` set (msg_headers (normalize mask_on topic part message)) =
        fst ` set es - {''__proto__''}) \<and>
   (raw_headers message = Some es \<and> distinct (map fst es) \<longrightarrow>
      msg_headers (normalize mask_on topic part message) =
        map (\<lambda>(k, v). (k, if mask_on then maskText (text_of v) else text_of v))
          (filter (\<lambda>(k, v). k \<noteq> ''__proto__'') es))"
proof -
  have none: "raw_headers message = None \<Longrightarrow>
      msg_headers (normalize mask_on topic part message) = []"
    by (simp add: normalize_def build_headers_def fromEntries_def)
  show ?thesis
    using none headers_keys[of message es mask_on topic part]
      headers_distinct[of es message mask_on topic part]
    by (simp add: text_of_def normalize_def)
qed

text \<open>
  C9 holds of the callback except for one header name. A message with the headers
  \<^verbatim>\<open>__proto__\<close> and \<^verbatim>\<open>a\<close> is normalised to a record with the header \<^verbatim>\<open>a\<close> alone, with and
  without masking: the rebuilt mapping does not have the key set of the message's headers.
\<close>

theorem proto_header_is_dropped:
  "msg_headers (normalize False ''orders'' 0
     (sample_message TsAbsent
        \<lparr> raw_headers := Some [(''__proto__'', Some (Buffer ''x'')), (''a'', Some (Buffer ''y''))] \<rparr>)) =
     [(''a'', ''y'')] \<and>
   msg_headers (normalize True ''orders'' 0
     (sample_message TsAbsent
        \<lparr> raw_headers := Some [(''__proto__'', Some (Buffer ''x'')), (''a'', Some (Buffer ''y''))] \<rparr>)) =
     [(''a'', ''y'')] \<and>
   fst ` set (msg_headers (normalize False ''orders'' 0
     (sample_message TsAbsent
        \<lparr> raw_headers := Some [(''__proto__'', Some (Buffer ''x'')), (''a'', Some (Buffer ''y''))] \<rparr>))) \<noteq>
     fst ` set [(''__proto__'', Some (Buffer ''x'')), (''a'', Some (Buffer ''y''))]"
proof -
  have m: "maskText ''y'' = ''y''" by code_simp
  show ?thesis
    by (simp add: normalize_def build_headers_def assign_def fromEntries_def text_of_def m)
qed

text \<open>
  C6, as the callback computes it. The normalised timestamp is null exactly when the
  timestamp of the message is missing, the number zero or the empty string; otherwise it
  is \<^verbatim>\<open>Number\<close> of it. A non-zero number is surfaced as it is, and a string that is a
  plain decimal integer of at most \<open>2\<^sup>5\<^sup>3\<close> in absolute value as that integer, zero
  included.
\<close>

theorem timestamp_truthy_then_Number:
  "msg_timestamp (normalize mask_on topic part message) =
     (case raw_timestamp message of
        TsAbsent \<Rightarrow> None
      | TsNumber n \<Rightarrow> if n = 0 then None else Some (Num n)
      | TsString s \<Rightarrow> if s = [] then None else Some (js_Number (TsString s))) \<and>
   (raw_timestamp message = TsString s \<and> decimal_int s = Some n \<and> \<bar>n\<bar> \<le> 2 ^ 53 \<longrightarrow>
      msg_timestamp (normalize mask_on topic part message) = Some (Num n))"
proof -
  have "s \<noteq> []" if "decimal_int s = Some n"
    using that by (auto simp: decimal_int_def)
  then show ?thesis
    by (auto simp: normalize_def Let_def truthy_def js_Number_def split: raw_timestamp.splits)
qed

theorem timestamp_truthy_then_Number_witness:
  "raw_timestamp (sample_message (TsString ''1700000000000'')) = TsString ''1700000000000'' \<and>
   decimal_int ''1700000000000'' = Some 1700000000000 \<and>
   \<bar>1700000000000 :: int\<bar> \<le> 2 ^ 53 \<and>
   msg_timestamp (normalize True ''orders'' 0 (sample_message (TsString ''1700000000000''))) =
     Some (Num 1700000000000) \<and>
   msg_timestamp (normalize True ''orders'' 0 (sample_message (TsNumber 0))) = None \<and>
   msg_timestamp (normalize True ''orders'' 0 (sample_message TsAbsent)) = None"
proof -
  have a: "raw_timestamp (sample_message (TsString ''1700000000000'')) = TsString ''1700000000000''"
    by (simp add: sample_message_def)
  have b: "decimal_int ''1700000000000'' = Some 1700000000000"
    by (simp add: decimal_int_def digits_value_def is_digit_def)
  have c: "\<bar>1700000000000 :: int\<bar> \<le> 2 ^ 53" by simp
  have d: "msg_timestamp (normalize True ''orders'' 0 (sample_message (TsString ''1700000000000''))) =
      Some (Num 1700000000000)"
    using a b c timestamp_truthy_then_Number[of True "''orders''" 0
        "sample_message (TsString ''1700000000000'')" "''1700000000000''" 1700000000000]
    by blast
  have e: "msg_timestamp (normalize True ''orders'' 0 (sample_message (TsNumber 0))) = None"
    "msg_timestamp (normalize True ''orders'' 0 (sample_message TsAbsent)) = None"
    using timestamp_truthy_then_Number[of True "''orders''" 0 "sample_message (TsNumber 0)"]
      timestamp_truthy_then_Number[of True "''orders''" 0 "sample_message TsAbsent"]
    by (simp_all add: sample_message_def)
  from a b c d e show ?thesis by blast
qed

text \<open>
  A broker timestamp of zero reaches the callback as the string \<^verbatim>\<open>"0"\<close>, which is truthy:
  the normalised timestamp is the number 0, not null. The timestamp \<^verbatim>\<open>"-1"\<close> of a message
  without one is surfaced as -1 in the same way.
\<close>

theorem timestamp_zero_string_kept:
  "msg_timestamp (normalize False ''orders'' 0 (sample_message (TsString ''0''))) = Some (Num 0) \<and>
   msg_timestamp (normalize False ''orders'' 0 (sample_message (TsString ''-1''))) = Some (Num (- 1))"
  by (simp add: normalize_def sample_message_def truthy_def js_Number_def decimal_int_def
      digits_value_def is_digit_def)

section \<open>The bounded buffer of the renderer\<close>

lemma length_most_recent: "length (most_recent n xs) \<le> n"
  by (simp add: most_recent_def)

lemma most_recent_append: "most_recent n (most_recent n xs @ ys) = most_recent n (xs @ ys)"
proof (cases "length xs \<le> n")
  case True
  then show ?thesis by (simp add: most_recent_def)
next
  case False
  then have "most_recent n (most_recent n xs @ ys) =
      drop (length ys) (drop (length xs - n) xs @ ys)"
    by (simp add: most_recent_def)
  also have "\<dots> = drop (length ys) (drop (length xs - n) (xs @ ys))"
    by simp
  also have "\<dots> = most_recent n (xs @ ys)"
    using False by (simp add: most_recent_def add.commute)
  finally show ?thesis .
qed

lemma drain_messages:
  "messages (drain st) =
     (if queue st = [] then messages st else most_recent MAX_MESSAGES (messages st @ queue st))"
  by (simp add: drain_def most_recent_def slice_from_def Let_def)

lemma drain_queue: "queue (drain st) = []"
  by (simp add: drain_def Let_def)

lemma run_feed_ledger:
  "messages st = most_recent MAX_MESSAGES d \<Longrightarrow>
   messages (run_feed evs st) = most_recent MAX_MESSAGES (fst (ledger evs (d, queue st))) \<and>
   queue (run_feed evs st) = snd (ledger evs (d, queue st))"
proof (induction evs arbitrary: st d)
  case Nil
  then show ?case by (simp add: run_feed_def)
next
  case (Cons ev evs)
  show ?case
  proof (cases ev)
    case (Arrive m)
    have "messages (onMessage m st) = most_recent MAX_MESSAGES d"
      using Cons.prems by (simp add: onMessage_def)
    from Cons.IH[OF this] show ?thesis
      using Arrive by (simp add: run_feed_def onMessage_def)
  next
    case Tick
    have "messages (drain st) = most_recent MAX_MESSAGES (d @ queue st)"
      using Cons.prems by (simp add: drain_messages most_recent_append)
    from Cons.IH[OF this] show ?thesis
      using Tick by (simp add: run_feed_def drain_queue)
  qed
qed

lemma ledger_one_at_a_time: "ledger (one_at_a_time rs) (d, []) = (d @ rs, [])"
  by (induction rs arbitrary: d) (simp_all add: one_at_a_time_def)

lemma most_recent_600:
  "most_recent 500 (map r [1..<601]) = map r [101..<601]"
  by (simp add: most_recent_def drop_map del: upt_Suc)

text \<open>
  C1. A drain with a non-empty queue appends the queue to the buffer in arrival order,
  keeps the most recent 500 records of the result in that order and empties the queue; a
  drain with an empty queue changes nothing. For every sequence of arrivals and ticks from
  the initial state the buffer is the most recent 500 of all records drained so far, so its
  length is at most 500; after 600 records, each delivered and drained on its own, it
  holds the records 101 to 600 in arrival order.
\<close>

theorem drain_keeps_most_recent:
  "MAX_MESSAGES = 500 \<and>
   messages (drain st) =
     (if queue st = [] then messages st else most_recent MAX_MESSAGES (messages st @ queue st)) \<and>
   queue (drain st) = [] \<and>
   messages (run_feed evs init_app) = most_recent MAX_MESSAGES (fst (ledger evs ([], []))) \<and>
   queue (run_feed evs init_app) = snd (ledger evs ([], [])) \<and>
   length (messages (run_feed evs init_app)) \<le> MAX_MESSAGES \<and>
   messages (run_feed (one_at_a_time (map r [1..<601])) init_app) = map r [101..<601]"
proof -
  have start: "messages init_app = most_recent MAX_MESSAGES []" "queue init_app = []"
    by (simp_all add: init_app_def most_recent_def)
  have run: "messages (run_feed es init_app) = most_recent MAX_MESSAGES (fst (ledger es ([], [])))"
    "queue (run_feed es init_app) = snd (ledger es ([], []))" for es
    using run_feed_ledger[OF start(1), of es] by (simp_all add: start(2))
  have len: "length (messages (run_feed evs init_app)) \<le> MAX_MESSAGES"
    unfolding run(1) by (rule length_most_recent)
  have "messages (run_feed (one_at_a_time (map r [1..<601])) init_app) =
      most_recent 500 (map r [1..<601])"
    unfolding run(1) ledger_one_at_a_time by (simp add: MAX_MESSAGES_def)
  then have six: "messages (run_feed (one_at_a_time (map r [1..<601])) init_app) =
      map r [101..<601]"
    by (simp only: most_recent_600)
  show ?thesis
    using run len six by (simp add: drain_messages drain_queue MAX_MESSAGES_def)
qed

section \<open>The filtered view\<close>

lemma includes_str_sublist: "includes_str hay q = sublist q hay"
  by (induction hay) (simp_all add: sublist_Cons_right)

lemma trim_empty: "(trim s = []) = list_all is_space s"
proof
  assume "trim s = []"
  then have rest: "\<forall>x \<in> set (dropWhile is_space s). is_space x"
    by (simp add: trim_def)
  have "dropWhile is_space s = []"
  proof (cases "dropWhile is_space s")
    case Nil
    then show ?thesis .
  next
    case (Cons a as)
    with hd_dropWhile[of is_space s] have "\<not> is_space a" by simp
    moreover from rest Cons have "is_space a" by simp
    ultimately show ?thesis by blast
  qed
  then show "list_all is_space s" by (simp add: list_all_iff)
next
  assume "list_all is_space s"
  then have "dropWhile is_space s = []" by (simp add: list_all_iff)
  then show "trim s = []" by (simp add: trim_def del: dropWhile_eq_Nil_conv)
qed

lemma toLowerCase_empty: "(toLowerCase s = []) = (s = [])"
  by (simp add: toLowerCase_def)

text \<open>
  C7, as the renderer computes it. A query that is empty or all white space yields the
  buffer itself. Any other query is trimmed of surrounding white space and lowercased, and
  exactly the records are kept, in their order, whose lowercased key, one space and value
  contain it. The result is always a subsequence of the buffer. So the query \<^verbatim>\<open>ABC\<close>
  keeps a record that contains \<^verbatim>\<open>abc\<close>, and a query that occurs in no record yields the
  empty sequence; a query of a no-break space and a tab yields the buffer, and the query
  of the capital letter U+00C9 keeps a record whose value ends in the small letter U+00E9.
\<close>

theorem filtered_spec:
  "filtered st =
     (if list_all is_space (search st) then messages st
      else filter (\<lambda>m. sublist (toLowerCase (trim (search st)))
                          (toLowerCase (msg_key m @ '' '' @ msg_value m)))
             (messages st)) \<and>
   subseq (filtered st) (messages st) \<and>
   filtered (init_app\<lparr> search := ''ABC'', messages := [sample_record ''k'' ''xabcx''] \<rparr>) =
     [sample_record ''k'' ''xabcx''] \<and>
   filtered (init_app\<lparr> search := ''xyz'', messages := [sample_record ''k'' ''xabcx''] \<rparr>) = [] \<and>
   filtered (init_app\<lparr> search := [CHR 0xA0, CHR 0x09],
       messages := [sample_record ''k'' ''xabcx''] \<rparr>) = [sample_record ''k'' ''xabcx''] \<and>
   filtered (init_app\<lparr> search := [CHR 0xC9],
       messages := [sample_record ''k'' [CHR ''c'', CHR ''a'', CHR ''f'', CHR 0xE9]] \<rparr>) =
     [sample_record ''k'' [CHR ''c'', CHR ''a'', CHR ''f'', CHR 0xE9]]"
proof -
  have eq: "filtered st =
     (if list_all is_space (search st) then messages st
      else filter (\<lambda>m. sublist (toLowerCase (trim (search st)))
                          (toLowerCase (msg_key m @ '' '' @ msg_value m)))
             (messages st))"
    by (simp add: filtered_def Let_def toLowerCase_empty trim_empty includes_str_sublist)
  have sub: "subseq (filtered st) (messages st)"
    unfolding eq by simp
  have ex: "filtered (init_app\<lparr> search := ''ABC'', messages := [sample_record ''k'' ''xabcx''] \<rparr>) =
     [sample_record ''k'' ''xabcx'']"
    "filtered (init_app\<lparr> search := ''xyz'', messages := [sample_record ''k'' ''xabcx''] \<rparr>) = []"
    "filtered (init_app\<lparr> search := [CHR 0xA0, CHR 0x09],
       messages := [sample_record ''k'' ''xabcx''] \<rparr>) = [sample_record ''k'' ''xabcx'']"
    "filtered (init_app\<lparr> search := [CHR 0xC9],
       messages := [sample_record ''k'' [CHR ''c'', CHR ''a'', CHR ''f'', CHR 0xE9]] \<rparr>) =
     [sample_record ''k'' [CHR ''c'', CHR ''a'', CHR ''f'', CHR 0xE9]]"
    by (simp_all add: filtered_def init_app_def sample_record_def Let_def trim_def is_space_def
        toLowerCase_def lower_char_def)
  from eq sub ex show ?thesis by blast
qed

text \<open>
  The query \<^verbatim>\<open>" abc "\<close> is not all white space. The renderer trims it and keeps a record
  whose value is \<^verbatim>\<open>xabcx\<close>; lowercased only, the query does not occur in that record.
\<close>

theorem filtered_trims_query:
  "filtered (init_app\<lparr> search := '' abc '', messages := [sample_record [] ''xabcx''] \<rparr>) =
     [sample_record [] ''xabcx''] \<and>
   \<not> list_all is_space '' abc '' \<and>
   filter (\<lambda>m. includes_str (toLowerCase (msg_key m @ '' '' @ msg_value m))
                 (toLowerCase '' abc ''))
     [sample_record [] ''xabcx''] = []"
  by (simp add: filtered_def init_app_def sample_record_def Let_def trim_def is_space_def
      toLowerCase_def lower_char_def)

section \<open>Start in the renderer\<close>

lemma start_request_clears:
  "messages (start_request st) = [] \<and> queue (start_request st) = [] \<and>
   selected (start_request st) = None \<and> status (start_request st) = Starting"
  by (simp add: start_request_def)

lemma start_settled_keeps:
  "messages (start_settled res st) = messages st \<and> queue (start_settled res st) = queue st \<and>
   selected (start_settled res st) = selected st \<and>
   status (start_settled res st) = (case res of Inl _ \<Rightarrow> Error | Inr _ \<Rightarrow> Running)"
  by (cases res) (simp_all add: start_settled_def)

lemma run_feed_selected: "selected (run_feed evs st) = selected st"
proof (induction evs arbitrary: st)
  case Nil
  show ?case by (simp add: run_feed_def)
next
  case (Cons ev evs)
  have "selected (feed_step ev st) = selected st"
    by (cases ev) (simp_all add: onMessage_def drain_def Let_def)
  with Cons.IH[of "feed_step ev st"] show ?case by (simp add: run_feed_def)
qed

lemma start_pending_ledger:
  "messages (run_feed evs (start_request st)) =
     most_recent MAX_MESSAGES (fst (ledger evs ([], []))) \<and>
   queue (run_feed evs (start_request st)) = snd (ledger evs ([], []))"
proof -
  have "messages (start_request st) = most_recent MAX_MESSAGES []"
    by (simp add: start_request_def most_recent_def)
  from run_feed_ledger[OF this, of evs] show ?thesis
    by (simp add: start_request_clears)
qed

text \<open>
  C10, as the renderer behaves. An invocation of \<^verbatim>\<open>start\<close> with brokers, topic and group
  id all non-blank clears the buffer, the queue and the selection before it invokes the
  main process, whether that invocation then resolves or rejects; only the status tells
  the two apart. When it has settled, the buffer and the queue hold the records that arrived
  while it was pending, the buffer the most recent 500 of those drained, and nothing from
  before; they are empty if none arrived. An invocation with a blank field returns at once
  and changes nothing.
\<close>

theorem start_clears_when_fields_given:
  "(\<not> blank (ui_brokers st) \<and> \<not> blank (ui_topic st) \<and> \<not> blank (ui_groupId st) \<longrightarrow>
      start_settled res (run_feed pending (start_request st)) = start res pending st \<and>
      messages (start_request st) = [] \<and> queue (start_request st) = [] \<and>
      selected (start_request st) = None \<and>
      messages (start res pending st) =
        most_recent MAX_MESSAGES (fst (ledger pending ([], []))) \<and>
      queue (start res pending st) = snd (ledger pending ([], [])) \<and>
      selected (start res pending st) = None \<and>
      messages (start res [] st) = [] \<and> queue (start res [] st) = [] \<and>
      status (start res pending st) = (case res of Inl _ \<Rightarrow> Error | Inr _ \<Rightarrow> Running)) \<and>
   (blank (ui_brokers st) \<or> blank (ui_topic st) \<or> blank (ui_groupId st) \<longrightarrow>
      start res pending st = st)"
proof -
  have empty: "most_recent MAX_MESSAGES ([] :: KafkaMsg list) = []"
    by (simp add: most_recent_def)
  show ?thesis
    using start_request_clears[of st] start_pending_ledger[of pending st]
      start_pending_ledger[of "[]" st]
      start_settled_keeps[of res "run_feed pending (start_request st)"]
      start_settled_keeps[of res "run_feed [] (start_request st)"]
      run_feed_selected[of pending "start_request st"]
    by (simp add: start_def empty)
qed

theorem start_clears_when_fields_given_witness:
  "\<not> blank (ui_brokers (init_app\<lparr> ui_topic := ''orders'', messages := [sample_record ''k'' ''v''] \<rparr>)) \<and>
   \<not> blank (ui_topic (init_app\<lparr> ui_topic := ''orders'', messages := [sample_record ''k'' ''v''] \<rparr>)) \<and>
   \<not> blank (ui_groupId (init_app\<lparr> ui_topic := ''orders'', messages := [sample_record ''k'' ''v''] \<rparr>)) \<and>
   messages (start (Inl ConnectFailed) []
     (init_app\<lparr> ui_topic := ''orders'', messages := [sample_record ''k'' ''v''] \<rparr>)) = [] \<and>
   status (start (Inl ConnectFailed) []
     (init_app\<lparr> ui_topic := ''orders'', messages := [sample_record ''k'' ''v''] \<rparr>)) = Error \<and>
   blank (ui_groupId (init_app\<lparr> ui_topic := ''orders'', ui_groupId := [CHR 0xA0],
     messages := [sample_record ''k'' ''v''] \<rparr>)) \<and>
   start (Inr Ok) [] (init_app\<lparr> ui_topic := ''orders'', ui_groupId := [CHR 0xA0],
       messages := [sample_record ''k'' ''v''] \<rparr>) =
     init_app\<lparr> ui_topic := ''orders'', ui_groupId := [CHR 0xA0],
       messages := [sample_record ''k'' ''v''] \<rparr>"
proof -
  have a: "\<not> blank (ui_brokers (init_app\<lparr> ui_topic := ''orders'', messages := [sample_record ''k'' ''v''] \<rparr>))"
    "\<not> blank (ui_topic (init_app\<lparr> ui_topic := ''orders'', messages := [sample_record ''k'' ''v''] \<rparr>))"
    "\<not> blank (ui_groupId (init_app\<lparr> ui_topic := ''orders'', messages := [sample_record ''k'' ''v''] \<rparr>))"
    by (simp_all add: blank_def trim_def is_space_def init_app_def)
  have b: "blank (ui_groupId (init_app\<lparr> ui_topic := ''orders'', ui_groupId := [CHR 0xA0],
     messages := [sample_record ''k'' ''v''] \<rparr>))"
    by (simp add: blank_def trim_def is_space_def init_app_def)
  from a start_clears_when_fields_given[of
      "init_app\<lparr> ui_topic := ''orders'', messages := [sample_record ''k'' ''v''] \<rparr>"
      "Inl ConnectFailed" "[]"]
  have c: "messages (start (Inl ConnectFailed) []
      (init_app\<lparr> ui_topic := ''orders'', messages := [sample_record ''k'' ''v''] \<rparr>)) = []"
    "status (start (Inl ConnectFailed) []
      (init_app\<lparr> ui_topic := ''orders'', messages := [sample_record ''k'' ''v''] \<rparr>)) = Error"
    by (simp_all add: most_recent_def)
  from b start_clears_when_fields_given[of
      "init_app\<lparr> ui_topic := ''orders'', ui_groupId := [CHR 0xA0],
        messages := [sample_record ''k'' ''v''] \<rparr>" "Inr Ok" "[]"]
  have d: "start (Inr Ok) [] (init_app\<lparr> ui_topic := ''orders'', ui_groupId := [CHR 0xA0],
       messages := [sample_record ''k'' ''v''] \<rparr>) =
     init_app\<lparr> ui_topic := ''orders'', ui_groupId := [CHR 0xA0],
       messages := [sample_record ''k'' ''v''] \<rparr>"
    by blast
  from a b c d show ?thesis by blast
qed

text \<open>
  In the initial state no topic is chosen. There \<^verbatim>\<open>start\<close> returns at its first line and a
  record in the buffer stays. With a topic chosen, a record that arrives and is drained
  while the invocation is pending is in the buffer when the invocation has failed.
\<close>

theorem start_blank_topic_keeps_buffer:
  "messages (start (Inr Ok) [] (init_app\<lparr> messages := [sample_record ''k'' ''v''] \<rparr>)) =
     [sample_record ''k'' ''v''] \<and>
   messages (start (Inl ConnectFailed) [] (init_app\<lparr> messages := [sample_record ''k'' ''v''] \<rparr>)) \<noteq> [] \<and>
   messages (start (Inl RunFailed) [Arrive (sample_record ''late'' ''w''), Tick]
     (init_app\<lparr> ui_topic := ''orders'', messages := [sample_record ''k'' ''v''] \<rparr>)) =
     [sample_record ''late'' ''w'']"
  by (simp add: start_def blank_def trim_def is_space_def init_app_def start_request_def
      start_settled_def run_feed_def onMessage_def drain_def Let_def MAX_MESSAGES_def)

section \<open>The lifecycle of the consumer\<close>

lemma eachMessage_keeps:
  "consumer (eachMessage d st) = consumer st \<and> running (eachMessage d st) = running st \<and>
   win (eachMessage d st) = win st \<and> created (eachMessage d st) = created st \<and>
   calls (eachMessage d st) = calls st \<and> closures (eachMessage d st) = closures st"
  by (simp add: eachMessage_def)

lemma land_keeps:
  "consumer (land ds st) = consumer st \<and> running (land ds st) = running st \<and>
   win (land ds st) = win st \<and> created (land ds st) = created st \<and>
   calls (land ds st) = calls st \<and> closures (land ds st) = closures st"
  unfolding land_def by (induction ds arbitrary: st) (simp_all add: eachMessage_keeps)

lemma land_stopped: "\<not> running st \<Longrightarrow> land ds st = st"
  unfolding land_def by (induction ds) (simp_all add: eachMessage_def)

lemma call_fields:
  "consumer (call c op res st) = consumer st \<and> running (call c op res st) = running st \<and>
   win (call c op res st) = win st \<and> created (call c op res st) = created st \<and>
   closures (call c op res st) = closures st \<and>
   sent (call c op res st) = sent st \<and> calls (call c op res st) = calls st @ [(c, op, res)]"
  by (simp add: call_def)

lemma stopConsumer_fields:
  "running (stopConsumer env st) = False \<and> consumer (stopConsumer env st) = None \<and>
   win (stopConsumer env st) = win st \<and> created (stopConsumer env st) = created st \<and>
   closures (stopConsumer env st) = closures st \<and>
   sent (stopConsumer env st) = sent st"
  by (cases "consumer st")
     (simp_all add: stopConsumer_def Let_def land_stopped call_fields land_keeps)


lemma stopConsumer_stopped:
  "consumer st = None \<Longrightarrow> \<not> running st \<Longrightarrow> stopConsumer env st = st"
  by (simp add: stopConsumer_def)

text \<open>
  C8. \<^verbatim>\<open>kafka:stop\<close> always resolves with \<^verbatim>\<open>{ ok: true }\<close>, whatever the release calls
  do. A second stop right after a first resolves as well and leaves the state as the first
  left it, and a stop in a state without consumer and with the flag false changes nothing.
\<close>

theorem stop_idempotent:
  "fst (kafka_stop env st) = Inr Ok \<and>
   fst (kafka_stop env' (snd (kafka_stop env st))) = Inr Ok \<and>
   snd (kafka_stop env' (snd (kafka_stop env st))) = snd (kafka_stop env st) \<and>
   (consumer st = None \<and> \<not> running st \<longrightarrow> snd (kafka_stop env st) = st)"
  by (simp add: kafka_stop_def stopConsumer_stopped stopConsumer_fields)

theorem stop_idempotent_witness:
  "consumer init_main = None \<and> \<not> running init_main \<and>
   snd (kafka_stop (quiet_stop Rejects) init_main) = init_main \<and>
   fst (kafka_stop (quiet_stop Rejects)
         (snd (kafka_stop (quiet_stop Resolves)
           (snd (kafka_start sample_cfg (quiet_start Resolves Resolves Resolves Resolves)
              init_main))))) = Inr Ok"
proof -
  have a: "consumer init_main = None" "\<not> running init_main"
    by (simp_all add: init_main_def)
  with stop_idempotent[of "quiet_stop Rejects" init_main]
  have b: "snd (kafka_stop (quiet_stop Rejects) init_main) = init_main" by blast
  have c: "fst (kafka_stop (quiet_stop Rejects)
         (snd (kafka_stop (quiet_stop Resolves)
           (snd (kafka_start sample_cfg (quiet_start Resolves Resolves Resolves Resolves)
              init_main))))) = Inr Ok"
    using stop_idempotent[of "quiet_stop Resolves"
        "snd (kafka_start sample_cfg (quiet_start Resolves Resolves Resolves Resolves) init_main)"
        "quiet_stop Rejects"]
    by blast
  from a b c show ?thesis by blast
qed

lemma run_main_Cons: "run_main (ev # evs) sys = run_main evs (main_step ev sys)"
  by (simp add: run_main_def)

lemma kafka_start_closures:
  "closures (snd (kafka_start cfg env st)) =
     closures st @
     (if connect_outcome env = Resolves \<and> subscribe_outcome env = Resolves then [cfg] else [])"
  by (cases "connect_outcome env"; cases "subscribe_outcome env"; cases "run_outcome env")
     (simp_all add: kafka_start_def Let_def land_keeps call_fields stopConsumer_fields
       register_def)

lemma invoke_running: "running (snd (invoke h st)) = False"
  by (cases h; cases "consumer st") (simp_all add: invoke_def after_stop_def)

lemma invoke_closures: "closures (snd (invoke h st)) = closures st"
  by (cases h; cases "consumer st") (simp_all add: invoke_def after_stop_def)

lemma invoke_stop_quiet:
  "sent (snd (invoke (StopHandler env) st)) = sent st \<and>
   \<not> pending_start (StopHandler env, fst (invoke (StopHandler env) st))"
  by (cases "consumer st") (simp_all add: invoke_def after_stop_def)

lemma resume_quiet:
  "\<not> pending_start (h, p) \<Longrightarrow>
   sent (snd (resume h p st)) = sent st \<and> running (snd (resume h p st)) = running st \<and>
   \<not> pending_start (h, fst (resume h p st))"
  by (cases h; cases p)
     (simp_all add: after_stop_def stop_env_of_def call_def Let_def split: option.splits)

lemma resume_closures: "prefix (closures st) (closures (snd (resume h p st)))"
  by (cases h; cases p)
     (simp_all add: after_stop_def stop_env_of_def call_def register_def Let_def
       split: option.splits)

lemma main_step_closures:
  "prefix (closures (proc sys)) (closures (proc (main_step ev sys)))"
proof (cases ev)
  case WindowCreated
  then show ?thesis by (simp add: createWindow_def)
next
  case (Callback d)
  then show ?thesis by (simp add: eachMessage_keeps)
next
  case (KafkaStart cfg env)
  then show ?thesis by (simp add: kafka_start_closures)
next
  case (KafkaStop env)
  then show ?thesis by (simp add: kafka_stop_def stopConsumer_fields)
next
  case (Invoke h)
  then show ?thesis by (simp add: invoke_closures)
next
  case (Resume i)
  then show ?thesis by (simp add: Let_def resume_closures)
qed

lemma run_main_closures:
  "prefix (closures (proc sys)) (closures (proc (run_main evs sys)))"
proof (induction evs arbitrary: sys)
  case Nil
  show ?case by (simp add: run_main_def)
next
  case (Cons ev evs)
  from main_step_closures[of sys ev] Cons.IH[of "main_step ev sys"]
  show ?case unfolding run_main_Cons by (rule prefix_order.trans)
qed

lemma quiet_step:
  assumes "\<not> running (proc sys)" "\<not> start_pending sys" "no_start ev"
  shows "sent (proc (main_step ev sys)) = sent (proc sys) \<and>
         \<not> running (proc (main_step ev sys)) \<and> \<not> start_pending (main_step ev sys)"
proof (cases ev)
  case WindowCreated
  then show ?thesis using assms by (simp add: createWindow_def start_pending_def)
next
  case (Callback d)
  then show ?thesis using assms by (simp add: eachMessage_def start_pending_def)
next
  case (KafkaStart cfg env)
  then show ?thesis using assms by simp
next
  case (KafkaStop env)
  then show ?thesis using assms
    by (simp add: kafka_stop_def stopConsumer_fields start_pending_def)
next
  case (Invoke h)
  with assms(3) obtain env where h: "h = StopHandler env" by (cases h) auto
  show ?thesis using Invoke h assms(2) invoke_stop_quiet[of env "proc sys"]
    by (simp add: invoke_running start_pending_def)
next
  case (Resume i)
  show ?thesis
  proof (cases "length (tasks sys) \<le> i")
    case True
    then show ?thesis using Resume assms by simp
  next
    case False
    then have "tasks sys ! i \<in> set (tasks sys)" by simp
    with assms(2) have "\<not> pending_start (fst (tasks sys ! i), snd (tasks sys ! i))"
      by (simp add: start_pending_def list_ex_iff)
    from resume_quiet[OF this, of "proc sys"]
    have r: "sent (snd (resume (fst (tasks sys ! i)) (snd (tasks sys ! i)) (proc sys))) =
          sent (proc sys)"
      "running (snd (resume (fst (tasks sys ! i)) (snd (tasks sys ! i)) (proc sys))) =
          running (proc sys)"
      "\<not> pending_start (fst (tasks sys ! i),
          fst (resume (fst (tasks sys ! i)) (snd (tasks sys ! i)) (proc sys)))"
      by simp_all
    have "\<not> list_ex pending_start ((tasks sys)[i := (fst (tasks sys ! i),
          fst (resume (fst (tasks sys ! i)) (snd (tasks sys ! i)) (proc sys)))])"
      using assms(2) r(3) by (auto simp: start_pending_def list_ex_iff dest: set_update_subset_insert[THEN subsetD])
    then show ?thesis using Resume False r(1,2) assms(1)
      by (simp add: Let_def start_pending_def)
  qed
qed

lemma stopped_stays:
  "\<not> running (proc sys) \<Longrightarrow> \<not> start_pending sys \<Longrightarrow> list_all no_start evs \<Longrightarrow>
   sent (proc (run_main evs sys)) = sent (proc sys) \<and> \<not> running (proc (run_main evs sys))"
proof (induction evs arbitrary: sys)
  case Nil
  then show ?case by (simp add: run_main_def)
next
  case (Cons ev evs)
  from Cons.prems have "no_start ev" "list_all no_start evs" by simp_all
  with quiet_step[OF Cons.prems(1,2), of ev] Cons.IH[of "main_step ev sys"]
  show ?case by (simp add: run_main_Cons)
qed

lemma kafka_start_flag_window:
  "running (snd (kafka_start cfg env st)) =
     (connect_outcome env = Resolves \<and> subscribe_outcome env = Resolves) \<and>
   win (snd (kafka_start cfg env st)) = win st"
  by (cases "connect_outcome env"; cases "subscribe_outcome env"; cases "run_outcome env")
     (simp_all add: kafka_start_def Let_def land_keeps call_fields stopConsumer_fields
       register_def)

text \<open>
  C4, as the main process behaves. \<^verbatim>\<open>stopConsumer\<close> clears the flag before its first call
  on the broker client. From the invocation of a stop on, no callback sends a record,
  whether it runs while the stop awaits the release or afterwards, through any further
  stops, as long as no \<^verbatim>\<open>kafka:start\<close> is invoked or pending. The callback sends nothing
  when the flag is false or no window is set; otherwise it sends the record normalised
  with the masking flag of its own closure, which is that of the configuration \<^verbatim>\<open>kafka:start\<close>
  was invoked with when it handed the closure to the broker client: the closures handed
  over are only ever added to. So a callback of the closure that a start has just handed
  over, with a window set, sends its record normalised with the masking flag of that start.
\<close>

theorem no_delivery_until_restart:
  "running (stopConsumer env st) = False \<and>
   running (snd (invoke h st)) = False \<and>
   sent (stopConsumer env st) = sent st \<and>
   (\<not> start_pending sys \<and> list_all no_start evs \<longrightarrow>
      sent (proc (run_main (KafkaStop env # evs) sys)) = sent (proc sys) \<and>
      sent (proc (run_main (Invoke (StopHandler env) # evs) sys)) = sent (proc sys) \<and>
      \<not> running (proc (run_main (KafkaStop env # evs) sys)) \<and>
      \<not> running (proc (run_main (Invoke (StopHandler env) # evs) sys))) \<and>
   sent (eachMessage d st) =
     (if d_closure d < length (closures st) \<and> running st \<and> win st
      then sent st @ [normalize (cfg_mask (closures st ! d_closure d))
                        (d_topic d) (d_partition d) (d_message d)]
      else sent st) \<and>
   prefix (closures (proc sys)) (closures (proc (run_main evs' sys))) \<and>
   closures (snd (kafka_start cfg senv st)) =
     closures st @
     (if connect_outcome senv = Resolves \<and> subscribe_outcome senv = Resolves then [cfg] else []) \<and>
   (connect_outcome senv = Resolves \<and> subscribe_outcome senv = Resolves \<and> win st \<longrightarrow>
      sent (eachMessage (d\<lparr> d_closure := length (closures st) \<rparr>)
              (snd (kafka_start cfg senv st))) =
        sent (snd (kafka_start cfg senv st)) @
          [normalize (cfg_mask cfg) (d_topic d) (d_partition d) (d_message d)])"
proof -
  have stay: "sent (proc (run_main (KafkaStop env # evs) sys)) = sent (proc sys) \<and>
      sent (proc (run_main (Invoke (StopHandler env) # evs) sys)) = sent (proc sys) \<and>
      \<not> running (proc (run_main (KafkaStop env # evs) sys)) \<and>
      \<not> running (proc (run_main (Invoke (StopHandler env) # evs) sys))"
    if a: "\<not> start_pending sys" and b: "list_all no_start evs"
  proof -
    have k: "\<not> running (proc (main_step (KafkaStop env) sys))"
      "\<not> start_pending (main_step (KafkaStop env) sys)"
      "sent (proc (main_step (KafkaStop env) sys)) = sent (proc sys)"
      using a by (simp_all add: kafka_stop_def stopConsumer_fields start_pending_def)
    have i: "\<not> running (proc (main_step (Invoke (StopHandler env)) sys))"
      "\<not> start_pending (main_step (Invoke (StopHandler env)) sys)"
      "sent (proc (main_step (Invoke (StopHandler env)) sys)) = sent (proc sys)"
      using a invoke_stop_quiet[of env "proc sys"]
      by (simp_all add: invoke_running start_pending_def)
    from stopped_stays[OF k(1,2) b] stopped_stays[OF i(1,2) b] k(3) i(3)
    show ?thesis by (simp add: run_main_Cons)
  qed
  have each: "sent (eachMessage d st) =
     (if d_closure d < length (closures st) \<and> running st \<and> win st
      then sent st @ [normalize (cfg_mask (closures st ! d_closure d))
                        (d_topic d) (d_partition d) (d_message d)]
      else sent st)"
    by (simp add: eachMessage_def)
  have own: "sent (eachMessage (d\<lparr> d_closure := length (closures st) \<rparr>)
              (snd (kafka_start cfg senv st))) =
        sent (snd (kafka_start cfg senv st)) @
          [normalize (cfg_mask cfg) (d_topic d) (d_partition d) (d_message d)]"
    if "connect_outcome senv = Resolves" "subscribe_outcome senv = Resolves" "win st"
    using that
    by (simp add: eachMessage_def kafka_start_closures kafka_start_flag_window)
  from stay each own show ?thesis
    by (simp add: stopConsumer_fields invoke_running run_main_closures kafka_start_closures)
qed

theorem no_delivery_until_restart_witness:
  "\<not> start_pending (run_main [WindowCreated,
       KafkaStart sample_cfg
         (quiet_start Resolves Resolves Resolves Resolves\<lparr> during_run := [sample_delivery] \<rparr>)]
       init_system) \<and>
   list_all no_start [Callback sample_delivery, Invoke (StopHandler (quiet_stop Resolves)),
     Resume 0, WindowCreated, Resume 0, Callback sample_delivery] \<and>
   length (sent (proc (run_main [WindowCreated,
       KafkaStart sample_cfg
         (quiet_start Resolves Resolves Resolves Resolves\<lparr> during_run := [sample_delivery] \<rparr>)]
       init_system))) = 1 \<and>
   sent (proc (run_main
       (Invoke (StopHandler (quiet_stop Rejects)) #
        [Callback sample_delivery, Invoke (StopHandler (quiet_stop Resolves)),
         Resume 0, WindowCreated, Resume 0, Callback sample_delivery])
       (run_main [WindowCreated,
          KafkaStart sample_cfg
            (quiet_start Resolves Resolves Resolves Resolves\<lparr> during_run := [sample_delivery] \<rparr>)]
          init_system))) =
     sent (proc (run_main [WindowCreated,
       KafkaStart sample_cfg
         (quiet_start Resolves Resolves Resolves Resolves\<lparr> during_run := [sample_delivery] \<rparr>)]
       init_system)) \<and>
   connect_outcome (quiet_start Resolves Resolves Resolves Rejects) = Resolves \<and>
   subscribe_outcome (quiet_start Resolves Resolves Resolves Rejects) = Resolves \<and>
   win (createWindow init_main) \<and>
   sent (eachMessage (sample_delivery\<lparr> d_closure := length (closures (createWindow init_main)) \<rparr>)
          (snd (kafka_start (sample_cfg\<lparr> cfg_mask := False \<rparr>)
                 (quiet_start Resolves Resolves Resolves Rejects) (createWindow init_main)))) =
     [normalize False ''orders'' 0 (sample_message (TsString ''1700000000000''))]"
proof -
  have a: "\<not> start_pending (run_main [WindowCreated,
       KafkaStart sample_cfg
         (quiet_start Resolves Resolves Resolves Resolves\<lparr> during_run := [sample_delivery] \<rparr>)]
       init_system)"
    by (simp add: run_main_def start_pending_def init_system_def)
  have b: "list_all no_start [Callback sample_delivery, Invoke (StopHandler (quiet_stop Resolves)),
     Resume 0, WindowCreated, Resume 0, Callback sample_delivery]"
    by simp
  have c: "length (sent (proc (run_main [WindowCreated,
       KafkaStart sample_cfg
         (quiet_start Resolves Resolves Resolves Resolves\<lparr> during_run := [sample_delivery] \<rparr>)]
       init_system))) = 1"
    by (simp add: run_main_def init_system_def kafka_start_def quiet_start_def quiet_stop_def
        stopConsumer_def createWindow_def init_main_def call_def land_def register_def
        eachMessage_def sample_delivery_def Let_def)
  have e: "connect_outcome (quiet_start Resolves Resolves Resolves Rejects) = Resolves"
    "subscribe_outcome (quiet_start Resolves Resolves Resolves Rejects) = Resolves"
    "win (createWindow init_main)"
    by (simp_all add: quiet_start_def createWindow_def init_main_def)
  have f: "sent (snd (kafka_start (sample_cfg\<lparr> cfg_mask := False \<rparr>)
                 (quiet_start Resolves Resolves Resolves Rejects) (createWindow init_main))) = []"
    by (simp add: kafka_start_def quiet_start_def quiet_stop_def stopConsumer_def
        createWindow_def init_main_def call_def land_def register_def Let_def)
  have g: "d_topic sample_delivery = ''orders''" "d_partition sample_delivery = 0"
    "d_message sample_delivery = sample_message (TsString ''1700000000000'')"
    "cfg_mask (sample_cfg\<lparr> cfg_mask := False \<rparr>) = False"
    by (simp_all add: sample_delivery_def)
  from e no_delivery_until_restart[where
      cfg = "sample_cfg\<lparr> cfg_mask := False \<rparr>" and
      senv = "quiet_start Resolves Resolves Resolves Rejects" and
      st = "createWindow init_main" and d = sample_delivery]
  have h: "sent (eachMessage (sample_delivery\<lparr> d_closure := length (closures (createWindow init_main)) \<rparr>)
          (snd (kafka_start (sample_cfg\<lparr> cfg_mask := False \<rparr>)
                 (quiet_start Resolves Resolves Resolves Rejects) (createWindow init_main)))) =
     [normalize False ''orders'' 0 (sample_message (TsString ''1700000000000''))]"
    by (simp add: f g)
  from a b c no_delivery_until_restart[where
      env = "quiet_stop Rejects" and
      sys = "run_main [WindowCreated,
          KafkaStart sample_cfg
            (quiet_start Resolves Resolves Resolves Resolves\<lparr> during_run := [sample_delivery] \<rparr>)]
          init_system" and
      evs = "[Callback sample_delivery, Invoke (StopHandler (quiet_stop Resolves)),
         Resume 0, WindowCreated, Resume 0, Callback sample_delivery]"]
  have i: "sent (proc (run_main
       (Invoke (StopHandler (quiet_stop Rejects)) #
        [Callback sample_delivery, Invoke (StopHandler (quiet_stop Resolves)),
         Resume 0, WindowCreated, Resume 0, Callback sample_delivery])
       (run_main [WindowCreated,
          KafkaStart sample_cfg
            (quiet_start Resolves Resolves Resolves Resolves\<lparr> during_run := [sample_delivery] \<rparr>)]
          init_system))) =
     sent (proc (run_main [WindowCreated,
       KafkaStart sample_cfg
         (quiet_start Resolves Resolves Resolves Resolves\<lparr> during_run := [sample_delivery] \<rparr>)]
       init_system))"
    by blast
  from a b c e h i show ?thesis by blast
qed

text \<open>
  After a stop whose \<^verbatim>\<open>consumer.stop()\<close> rejected nothing has been sent. A later
  \<^verbatim>\<open>kafka:start\<close>, with masking off, sets the flag again, and a callback of the closure of
  the first subscription then sends its record, masked as the first start asked.
\<close>

theorem stopped_callback_delivered_after_restart:
  "sent (proc (run_main
     [WindowCreated,
      KafkaStart sample_cfg (quiet_start Resolves Resolves Resolves Resolves),
      KafkaStop (quiet_stop Rejects),
      Callback sample_delivery] init_system)) = [] \<and>
   sent (proc (run_main
     [WindowCreated,
      KafkaStart sample_cfg (quiet_start Resolves Resolves Resolves Resolves),
      KafkaStop (quiet_stop Rejects),
      KafkaStart (sample_cfg\<lparr> cfg_mask := False \<rparr>) (quiet_start Resolves Resolves Resolves Resolves),
      Callback sample_delivery] init_system)) =
     [normalize True ''orders'' 0 (sample_message (TsString ''1700000000000''))]"
  by (simp add: run_main_def init_system_def kafka_start_def kafka_stop_def quiet_start_def
      quiet_stop_def stopConsumer_def createWindow_def init_main_def call_def land_def
      register_def eachMessage_def sample_delivery_def sample_cfg_def Let_def)























end
